theory Spec2Isabelle
  imports Main "HOL-Library.AList"
begin

unbundle bit_operations_syntax

section \<open>Data model of the system tray host\<close>

subsection \<open>Identifiers\<close>

text \<open>
  Python's \<open>uuid.UUID\<close> wraps an integer, \<open>UUID.int\<close>, of 128 bits; \<open>str\<close> prints it
  as 32 lower-case hexadecimal digits grouped 8-4-4-4-12.
\<close>

datatype UUID = UUID (uuid_int: int)

definition hex_digit :: "int \<Rightarrow> char" where
  "hex_digit n = ''0123456789abcdef'' ! nat (n mod 16)"

text \<open>The \<open>k\<close> lowest hexadecimal digits of \<open>n\<close>, most significant first.\<close>

fun hex_digits :: "nat \<Rightarrow> int \<Rightarrow> string" where
  "hex_digits 0 n = []"
| "hex_digits (Suc k) n = hex_digits k (n div 16) @ [hex_digit (n mod 16)]"

definition hex32 :: "int \<Rightarrow> string" where
  "hex32 n = hex_digits 32 n"

definition str_UUID :: "UUID \<Rightarrow> string" where
  "str_UUID u =
     (let h = hex32 (uuid_int u)
      in take 8 h @ ''-'' @ take 4 (drop 8 h) @ ''-'' @ take 4 (drop 12 h) @ ''-'' @
         take 4 (drop 16 h) @ ''-'' @ drop 20 h)"

definition BATTERY_ICON_GUID :: UUID where
  "BATTERY_ICON_GUID = UUID 0x7820ae7523e3422982c1e41cb67d5b9c"

definition VOLUME_ICON_GUID :: UUID where
  "VOLUME_ICON_GUID = UUID 0x7820ae7323e3422982c1e41cb67d5b9c"

subsection \<open>Notification payload\<close>

text \<open>An icon image is opaque to the tray host; it is identified by a number.\<close>

datatype QImage = QImage nat

text \<open>
  Modelled from the spec: the class \<open>IconData\<close> is declared in
  \<open>core/utils/systray/tray_monitor.py\<close>, which is not part of the sources at hand.
  The fields are the attributes that \<open>systray.py\<close> reads and writes; integers are
  Python's unbounded integers.
\<close>

record IconData =
  message_type :: int
  hWnd :: int
  uID :: int
  uFlags :: int
  icon_image :: "QImage option"
  exe :: string
  exe_path :: string
  uVersion :: int
  uCallbackMessage :: int
  hIcon :: int
  szTip :: string
  dwState :: int
  dwStateMask :: int
  guid :: "UUID option"
  dwInfoFlags :: int
  szInfoTitle :: string
  szInfo :: string
  uTimeout :: int

text \<open>
  Modelled from the spec: \<open>IconData()\<close>, the record "created empty" when a notification
  matches no live icon. Every field is overwritten or gated by the first
  \<open>update_icon_data\<close>; only the absent GUID matters below.
\<close>

definition IconData_empty :: IconData where
  "IconData_empty =
     \<lparr>message_type = 0, hWnd = 0, uID = 0, uFlags = 0, icon_image = None, exe = [],
      exe_path = [], uVersion = 0, uCallbackMessage = 0, hIcon = 0, szTip = [],
      dwState = 0, dwStateMask = 0, guid = None, dwInfoFlags = 0, szInfoTitle = [],
      szInfo = [], uTimeout = 0\<rparr>"

text \<open>
  Modelled from the spec: the presence-flag bits of \<open>core/utils/systray/win_types.py\<close>,
  which is not part of the sources at hand. The values are those of the platform's
  notify-icon structure; no general theorem below depends on them.
\<close>

definition NIF_MESSAGE :: int where "NIF_MESSAGE = 0x1"
definition NIF_ICON :: int where "NIF_ICON = 0x2"
definition NIF_TIP :: int where "NIF_TIP = 0x4"
definition NIF_STATE :: int where "NIF_STATE = 0x8"
definition NIF_INFO :: int where "NIF_INFO = 0x10"
definition NIF_GUID :: int where "NIF_GUID = 0x20"

subsection \<open>Widgets and the host\<close>

text \<open>
  Modelled from the spec: \<open>IconState\<close> of \<open>core/utils/systray/systray_widget.py\<close>,
  the persisted placement \<open>{is_pinned: bool, index: int}\<close>.
\<close>

record IconState =
  is_pinned :: bool
  index :: int

text \<open>
  An \<open>IconWidget\<close> is a mutable object shared by the registry and the layouts. Objects
  live in a store addressed by a widget number; the registry and the two layouts hold
  numbers. \<open>hidden\<close> is Qt's explicit hidden flag, as set by \<open>setHidden\<close>.
\<close>

type_synonym wref = nat

record IconWidget =
  data :: "IconData option"
  widget_is_pinned :: bool
  hidden :: bool

subsection \<open>JSON values and the state file\<close>

datatype json =
    JNull
  | JBool bool
  | JInt int
  | JStr string
  | JList "json list"
  | JDict "(string \<times> json) list"

text \<open>
  What \<open>open(file_path)\<close> followed by \<open>json.load\<close> meets: no file, a file that is not
  JSON, or a JSON value. Writing \<open>json.dumps(v)\<close> leaves a file that decodes to \<open>v\<close>.
\<close>

datatype state_file = FileNotFound | JSONDecodeError | Decoded json

datatype error = TypeError | AttributeError | KeyError

record SystrayWidget =
  filtered_guids :: "UUID set"
  widgets :: "wref \<Rightarrow> IconWidget"
  next_widget :: wref
  icons :: "wref list"
  current_state :: "(string \<times> IconState) list"
  unpinned_layout :: "wref list"
  pinned_layout :: "wref list"
  sort_timer_active :: bool
  pinned_widget_visible :: bool
  forceshow :: bool
  deferred_delete :: "wref list"
  disk_file :: state_file

section \<open>Identity resolution\<close>

text \<open>The first loop of \<open>find_icon\<close>: the first icon whose GUID equals \<open>uuid\<close>.\<close>

fun find_by_guid :: "(wref \<Rightarrow> IconWidget) \<Rightarrow> UUID \<Rightarrow> wref list \<Rightarrow> wref option" where
  "find_by_guid ws uuid [] = None"
| "find_by_guid ws uuid (icon # rest) =
     (case data (ws icon) of
        None \<Rightarrow> find_by_guid ws uuid rest
      | Some d \<Rightarrow>
          (case guid d of
             None \<Rightarrow> find_by_guid ws uuid rest
           | Some g \<Rightarrow> if g = uuid then Some icon else find_by_guid ws uuid rest))"

text \<open>The second loop: the first icon whose window handle and id both match.\<close>

fun find_by_hwnd :: "(wref \<Rightarrow> IconWidget) \<Rightarrow> int \<Rightarrow> int \<Rightarrow> wref list \<Rightarrow> wref option" where
  "find_by_hwnd ws hwnd uid [] = None"
| "find_by_hwnd ws hwnd uid (icon # rest) =
     (case data (ws icon) of
        None \<Rightarrow> find_by_hwnd ws hwnd uid rest
      | Some d \<Rightarrow>
          if hWnd d = hwnd \<and> uID d = uid then Some icon
          else find_by_hwnd ws hwnd uid rest)"

text \<open>
  \<open>find_icon\<close>: the second loop is not under an \<open>else\<close>; it also runs when a GUID
  was given and the first loop returned nothing.
\<close>

definition find_icon :: "SystrayWidget \<Rightarrow> UUID option \<Rightarrow> int \<Rightarrow> int \<Rightarrow> wref option" where
  "find_icon s uuid hwnd uid =
     (case uuid of
        None \<Rightarrow> find_by_hwnd (widgets s) hwnd uid (icons s)
      | Some u \<Rightarrow>
          (case find_by_guid (widgets s) u (icons s) of
             Some icon \<Rightarrow> Some icon
           | None \<Rightarrow> find_by_hwnd (widgets s) hwnd uid (icons s)))"

section \<open>Applying a modify notification to an icon's data\<close>

text \<open>
  \<open>update_icon_data\<close>: the seven direct attributes are always copied, the version only
  when it lies in 1..4, and each flagged group only when \<open>new_data.uFlags & flag\<close> is
  non-zero. The groups are visited in the order of the source's dictionary.
\<close>

definition update_icon_data :: "IconData option \<Rightarrow> IconData \<Rightarrow> IconData option" where
  "update_icon_data old_data new_data =
     (case old_data of
        None \<Rightarrow> None
      | Some old \<Rightarrow>
          let d1 = old\<lparr>message_type := message_type new_data, hWnd := hWnd new_data,
                        uID := uID new_data, uFlags := uFlags new_data,
                        icon_image := icon_image new_data, exe := exe new_data,
                        exe_path := exe_path new_data\<rparr>;
              d2 = (if 0 < uVersion new_data \<and> uVersion new_data \<le> 4
                    then d1\<lparr>uVersion := uVersion new_data\<rparr> else d1);
              d3 = (if uFlags new_data AND NIF_MESSAGE \<noteq> 0
                    then d2\<lparr>uCallbackMessage := uCallbackMessage new_data\<rparr> else d2);
              d4 = (if uFlags new_data AND NIF_ICON \<noteq> 0
                    then d3\<lparr>hIcon := hIcon new_data\<rparr> else d3);
              d5 = (if uFlags new_data AND NIF_TIP \<noteq> 0
                    then d4\<lparr>szTip := szTip new_data\<rparr> else d4);
              d6 = (if uFlags new_data AND NIF_STATE \<noteq> 0
                    then d5\<lparr>dwState := dwState new_data,
                            dwStateMask := dwStateMask new_data\<rparr> else d5);
              d7 = (if uFlags new_data AND NIF_GUID \<noteq> 0
                    then d6\<lparr>guid := guid new_data\<rparr> else d6);
              d8 = (if uFlags new_data AND NIF_INFO \<noteq> 0
                    then d7\<lparr>dwInfoFlags := dwInfoFlags new_data,
                            szInfoTitle := szInfoTitle new_data,
                            szInfo := szInfo new_data,
                            uTimeout := uTimeout new_data\<rparr> else d7)
          in Some d8)"

text \<open>A run of modify notifications applied to one icon's data, oldest first.\<close>

definition update_icon_data_seq :: "IconData option \<Rightarrow> IconData list \<Rightarrow> IconData option" where
  "update_icon_data_seq old_data ns = fold (\<lambda>n d. update_icon_data d n) ns old_data"

text \<open>
  The field value a run of notifications leaves behind, in the words of the
  specification: the value \<open>f\<close> of the last notification that satisfies \<open>P\<close>, and the
  prior value when there is none.
\<close>

definition last_carried :: "('n \<Rightarrow> bool) \<Rightarrow> ('n \<Rightarrow> 'v) \<Rightarrow> 'n list \<Rightarrow> 'v \<Rightarrow> 'v" where
  "last_carried P f ns prior = (case find P (rev ns) of None \<Rightarrow> prior | Some n \<Rightarrow> f n)"

section \<open>Layouts\<close>

text \<open>
  A layout is the list of the icon widgets it holds, in display order.
  \<open>indexOf\<close> is Qt's: the position of the widget, or -1.
\<close>

fun indexOf :: "wref list \<Rightarrow> wref \<Rightarrow> int" where
  "indexOf [] w = - 1"
| "indexOf (x # xs) w =
     (if x = w then 0 else (let i = indexOf xs w in if i = - 1 then - 1 else i + 1))"

text \<open>Python's \<open>list.index\<close>, used only on members of the list.\<close>

definition list_index :: "'a list \<Rightarrow> 'a \<Rightarrow> nat" where
  "list_index xs w = length (takeWhile (\<lambda>x. x \<noteq> w) xs)"

definition layout_insert :: "nat \<Rightarrow> wref \<Rightarrow> wref list \<Rightarrow> wref list" where
  "layout_insert i w l = take i l @ w # drop i l"

text \<open>
  \<open>insertWidget\<close> and \<open>addWidget\<close> on a widget that already sits in a layout move it:
  Qt takes it out of the layout it is in and puts it at the new place.
\<close>

definition unpinned_insertWidget :: "nat \<Rightarrow> wref \<Rightarrow> SystrayWidget \<Rightarrow> SystrayWidget" where
  "unpinned_insertWidget i w s =
     s\<lparr>unpinned_layout := layout_insert i w (removeAll w (unpinned_layout s)),
       pinned_layout := removeAll w (pinned_layout s)\<rparr>"

definition pinned_insertWidget :: "nat \<Rightarrow> wref \<Rightarrow> SystrayWidget \<Rightarrow> SystrayWidget" where
  "pinned_insertWidget i w s =
     s\<lparr>pinned_layout := layout_insert i w (removeAll w (pinned_layout s)),
       unpinned_layout := removeAll w (unpinned_layout s)\<rparr>"

definition unpinned_addWidget :: "wref \<Rightarrow> SystrayWidget \<Rightarrow> SystrayWidget" where
  "unpinned_addWidget w s =
     s\<lparr>unpinned_layout := removeAll w (unpinned_layout s) @ [w],
       pinned_layout := removeAll w (pinned_layout s)\<rparr>"

definition pinned_addWidget :: "wref \<Rightarrow> SystrayWidget \<Rightarrow> SystrayWidget" where
  "pinned_addWidget w s =
     s\<lparr>pinned_layout := removeAll w (pinned_layout s) @ [w],
       unpinned_layout := removeAll w (unpinned_layout s)\<rparr>"

definition is_layout_empty :: "SystrayWidget \<Rightarrow> wref list \<Rightarrow> bool" where
  "is_layout_empty s layout = list_all (\<lambda>w. hidden (widgets s w)) layout"

definition update_pinned_widget_visibility :: "bool \<Rightarrow> SystrayWidget \<Rightarrow> SystrayWidget" where
  "update_pinned_widget_visibility force_show s =
     (let is_empty = is_layout_empty s (pinned_layout s);
          s1 = s\<lparr>pinned_widget_visible := (\<not> is_empty \<or> force_show)\<rparr>
      in if force_show \<and> is_empty then s1\<lparr>forceshow := True\<rparr>
         else if forceshow s1 \<and> \<not> is_empty then s1\<lparr>forceshow := False\<rparr>
         else s1)"

section \<open>State snapshot\<close>

text \<open>
  A Python \<open>dict\<close> is an association list with distinct keys, in insertion order:
  \<open>d.get(k)\<close> is \<open>map_of d k\<close>, \<open>d[k] = v\<close> is \<open>AList.update k v d\<close>, and \<open>a | b\<close>
  stores the items of \<open>b\<close> into \<open>a\<close> one after the other.
\<close>

definition dict_or :: "('k \<times> 'v) list \<Rightarrow> ('k \<times> 'v) list \<Rightarrow> ('k \<times> 'v) list" where
  "dict_or a b = fold (\<lambda>(k, v). AList.update k v) b a"

text \<open>\<open>uuid or w.data.exe_path\<close>, with \<open>uuid\<close> the GUID's string or \<open>None\<close>.\<close>

definition state_key :: "IconData \<Rightarrow> string" where
  "state_key d =
     (case guid d of
        None \<Rightarrow> exe_path d
      | Some g \<Rightarrow> if str_UUID g = [] then exe_path d else str_UUID g)"

definition widget_index :: "SystrayWidget \<Rightarrow> wref \<Rightarrow> int" where
  "widget_index s w =
     (let index = indexOf (unpinned_layout s) w
      in if index = - 1 then indexOf (pinned_layout s) w else index)"

fun widgets_state_of ::
  "SystrayWidget \<Rightarrow> wref list \<Rightarrow> (string \<times> IconState) list \<Rightarrow> (string \<times> IconState) list" where
  "widgets_state_of s [] widgets_state = widgets_state"
| "widgets_state_of s (w # rest) widgets_state =
     (case data (widgets s w) of
        None \<Rightarrow> widgets_state_of s rest widgets_state
      | Some d \<Rightarrow>
          if hidden (widgets s w) then widgets_state_of s rest widgets_state
          else widgets_state_of s rest
                 (AList.update (state_key d)
                    \<lparr>is_pinned = widget_is_pinned (widgets s w), index = widget_index s w\<rparr>
                    widgets_state))"

definition update_current_state :: "SystrayWidget \<Rightarrow> SystrayWidget" where
  "update_current_state s =
     s\<lparr>current_state := dict_or (current_state s) (widgets_state_of s (icons s) [])\<rparr>"

section \<open>Sorter\<close>

definition get_sort_index :: "SystrayWidget \<Rightarrow> wref \<Rightarrow> int" where
  "get_sort_index s widget =
     (case data (widgets s widget) of
        None \<Rightarrow> 9999
      | Some d \<Rightarrow>
          (let index = (case guid d of
                          Some g \<Rightarrow> map_of (current_state s) (str_UUID g)
                        | None \<Rightarrow> map_of (current_state s) (exe_path d))
           in case index of Some st \<Rightarrow> IconState.index st | None \<Rightarrow> 9999))"

text \<open>
  The sort key in the words of the specification: the GUID key first and, when that
  lookup fails, the path key.
\<close>

definition spec_sort_index :: "SystrayWidget \<Rightarrow> wref \<Rightarrow> int" where
  "spec_sort_index s widget =
     (case data (widgets s widget) of
        None \<Rightarrow> 9999
      | Some d \<Rightarrow>
          (let by_guid = (case guid d of
                            Some g \<Rightarrow> map_of (current_state s) (str_UUID g)
                          | None \<Rightarrow> None);
               index = (case by_guid of
                          Some st \<Rightarrow> Some st
                        | None \<Rightarrow> map_of (current_state s) (exe_path d))
           in case index of Some st \<Rightarrow> IconState.index st | None \<Rightarrow> 9999))"

text \<open>
  \<open>sort_icons\<close>: Python's \<open>list.sort\<close> is a stable sort, which is what \<open>sort_key\<close>
  computes. Each widget is then re-inserted at its position in the sorted list.
\<close>

definition sort_icons :: "SystrayWidget \<Rightarrow> SystrayWidget" where
  "sort_icons s =
     (let unpinned = sort_key (get_sort_index s) (unpinned_layout s);
          pinned = sort_key (get_sort_index s) (pinned_layout s);
          s1 = fold (\<lambda>w. unpinned_insertWidget (list_index unpinned w) w) unpinned s;
          s2 = fold (\<lambda>w. pinned_insertWidget (list_index pinned w) w) pinned s1
      in update_current_state s2)"

section \<open>Persistence\<close>

text \<open>
  Modelled from the spec: \<open>IconState.__dict__\<close> and \<open>IconState.from_dict\<close> of
  \<open>core/utils/systray/systray_widget.py\<close>, which is not part of the sources at hand.
  The file schema is \<open>{"is_pinned": bool, "index": int}\<close>; \<open>from_dict\<close> reads the two
  fields back and raises on a value of any other shape.
\<close>

definition IconState_dict :: "IconState \<Rightarrow> json" where
  "IconState_dict v = JDict [(''is_pinned'', JBool (is_pinned v)), (''index'', JInt (index v))]"

fun IconState_from_dict :: "json \<Rightarrow> error + IconState" where
  "IconState_from_dict (JDict kvs) =
     (case (map_of kvs ''is_pinned'', map_of kvs ''index'') of
        (Some (JBool b), Some (JInt i)) \<Rightarrow> Inr \<lparr>is_pinned = b, index = i\<rparr>
      | _ \<Rightarrow> Inl KeyError)"
| "IconState_from_dict _ = Inl TypeError"

text \<open>
  \<open>save_state\<close>: a missing or undecodable file leaves \<open>saved_state\<close> empty. The merge
  \<open>saved_state | {...}\<close> raises \<open>TypeError\<close> when the file held JSON that is not an
  object; nothing is written then. One file stands for the file of this widget's monitor.
\<close>

definition save_state :: "SystrayWidget \<Rightarrow> error + SystrayWidget" where
  "save_state s =
     (let s1 = update_current_state s;
          saved_state = (case disk_file s1 of Decoded j \<Rightarrow> j | _ \<Rightarrow> JDict [])
      in case saved_state of
           JDict d \<Rightarrow>
             (let new_state = dict_or d (map (\<lambda>(k, v). (k, IconState_dict v)) (current_state s1))
              in Inr (s1\<lparr>disk_file := Decoded (JDict new_state)\<rparr>))
         | _ \<Rightarrow> Inl TypeError)"



section \<open>Reconciler\<close>

text \<open>\<open>data.guid in self.filtered_guids\<close>; \<open>None\<close> is never in a set of UUIDs.\<close>

definition is_filtered :: "SystrayWidget \<Rightarrow> IconData \<Rightarrow> bool" where
  "is_filtered s dat = (case guid dat of None \<Rightarrow> False | Some g \<Rightarrow> g \<in> filtered_guids s)"

text \<open>
  The saved placement of a new icon:
  \<open>current_state.get(id, current_state.get(exe_path, IconState(index=-1, is_pinned=False)))\<close>.
\<close>

definition saved_data_for :: "SystrayWidget \<Rightarrow> IconData \<Rightarrow> IconState" where
  "saved_data_for s dat =
     (let id = (case guid dat of Some g \<Rightarrow> str_UUID g | None \<Rightarrow> exe_path dat)
      in case map_of (current_state s) id of
           Some v \<Rightarrow> v
         | None \<Rightarrow>
             (case map_of (current_state s) (exe_path dat) of
                Some v \<Rightarrow> v
              | None \<Rightarrow> \<lparr>is_pinned = False, index = - 1\<rparr>))"

text \<open>
  The branch \<open>icon is None\<close> of \<open>on_icon_modified\<close>: a fresh widget with empty data is
  appended to the registry and added to the layout its saved placement names, and the
  sort timer is started. A widget is hidden until it is shown.
\<close>

definition new_icon :: "SystrayWidget \<Rightarrow> IconData \<Rightarrow> wref \<times> SystrayWidget" where
  "new_icon s dat =
     (let icon = next_widget s;
          saved_data = saved_data_for s dat;
          s1 = s\<lparr>widgets := (widgets s)(icon :=
                     \<lparr>data = Some IconData_empty, widget_is_pinned = is_pinned saved_data,
                      hidden = True\<rparr>),
                 next_widget := Suc icon,
                 icons := icons s @ [icon]\<rparr>;
          s2 = (if is_pinned saved_data then pinned_addWidget icon s1
                else unpinned_addWidget icon s1)
      in (icon, s2\<lparr>sort_timer_active := True\<rparr>))"

definition on_icon_modified :: "SystrayWidget \<Rightarrow> IconData \<Rightarrow> SystrayWidget" where
  "on_icon_modified s dat =
     (if is_filtered s dat then s
      else
        let (icon, s1) = (case find_icon s (guid dat) (hWnd dat) (uID dat) of
                            None \<Rightarrow> new_icon s dat
                          | Some i \<Rightarrow> (i, s));
            w = widgets s1 icon;
            w1 = w\<lparr>data := update_icon_data (data w) dat\<rparr>;
            w2 = w1\<lparr>hidden := (uFlags dat AND NIF_STATE \<noteq> 0 \<and> dwState dat = 1)\<rparr>
        in update_pinned_widget_visibility False (s1\<lparr>widgets := (widgets s1)(icon := w2)\<rparr>))"

text \<open>
  Removing an icon: \<open>self.icons.remove(icon)\<close> and \<open>icon.deleteLater()\<close>. The widget
  leaves the registry at once. \<open>deleteLater\<close> only posts a request: the widget stays in
  its layout, and counts for the visibility of the pinned group, until the event loop
  delivers the request.
\<close>

definition remove_icon :: "wref \<Rightarrow> SystrayWidget \<Rightarrow> SystrayWidget" where
  "remove_icon icon s =
     s\<lparr>icons := remove1 icon (icons s),
       deferred_delete := deferred_delete s @ [icon]\<rparr>"

text \<open>
  The event loop delivers the posted requests: Qt destroys the widgets, which takes them
  out of the layouts. The visibility of the pinned group is not recomputed.
\<close>

definition process_deferred_deletes :: "SystrayWidget \<Rightarrow> SystrayWidget" where
  "process_deferred_deletes s =
     s\<lparr>unpinned_layout := filter (\<lambda>w. w \<notin> set (deferred_delete s)) (unpinned_layout s),
       pinned_layout := filter (\<lambda>w. w \<notin> set (deferred_delete s)) (pinned_layout s),
       deferred_delete := []\<rparr>"

definition on_icon_deleted :: "SystrayWidget \<Rightarrow> IconData \<Rightarrow> SystrayWidget" where
  "on_icon_deleted s dat =
     (case find_icon s (guid dat) (hWnd dat) (uID dat) of
        None \<Rightarrow> s
      | Some icon \<Rightarrow> update_pinned_widget_visibility False (remove_icon icon s))"

text \<open>
  \<open>on_icon_pinned_changed\<close>: the user's pin toggle. \<open>icon.parent()\<close> is the container
  whose layout holds the icon; \<open>icon.show()\<close> clears the hidden flag. The handler saves at
  once, and \<open>save_state\<close> may raise.
\<close>

definition on_icon_pinned_changed :: "SystrayWidget \<Rightarrow> wref \<Rightarrow> error + SystrayWidget" where
  "on_icon_pinned_changed s icon =
     (let to_pinned = (icon \<in> set (unpinned_layout s));
          s1 = (if to_pinned then pinned_addWidget icon s else unpinned_addWidget icon s);
          w = (widgets s1 icon)\<lparr>widget_is_pinned := to_pinned, hidden := False\<rparr>;
          s2 = s1\<lparr>widgets := (widgets s1)(icon := w)\<rparr>
      in case save_state s2 of
           Inl e \<Rightarrow> Inl e
         | Inr s3 \<Rightarrow> Inr (update_pinned_widget_visibility False s3))"

text \<open>A run of pin toggles, stopping at the first error.\<close>

fun pin_toggles :: "wref list \<Rightarrow> SystrayWidget \<Rightarrow> error + SystrayWidget" where
  "pin_toggles [] s = Inr s"
| "pin_toggles (icon # rest) s =
     (case on_icon_pinned_changed s icon of
        Inl e \<Rightarrow> Inl e
      | Inr s1 \<Rightarrow> pin_toggles rest s1)"

text \<open>
  \<open>check_icons\<close>: the liveness sweep over a copy of the registry. \<open>IsWindow\<close> is the
  platform's answer at the time of the sweep.
\<close>

definition check_icon :: "(int \<Rightarrow> bool) \<Rightarrow> wref \<Rightarrow> SystrayWidget \<times> bool \<Rightarrow> SystrayWidget \<times> bool" where
  "check_icon IsWindow icon sc =
     (case data (widgets (fst sc) icon) of
        None \<Rightarrow> sc
      | Some d \<Rightarrow> if \<not> IsWindow (hWnd d) then (remove_icon icon (fst sc), True) else sc)"

definition check_icons :: "(int \<Rightarrow> bool) \<Rightarrow> SystrayWidget \<Rightarrow> SystrayWidget" where
  "check_icons IsWindow s =
     (let (s1, icons_changed) = fold (check_icon IsWindow) (icons s) (s, False)
      in if icons_changed then update_pinned_widget_visibility False s1 else s1)"

text \<open>
  The events of the UI thread that touch the registry: a modify notification, a delete
  notification, a liveness sweep, which carries the window handles that are valid when
  it runs, and the delivery of the posted delete requests, which may come after any
  number of other events.
\<close>

datatype event = Modified IconData | Deleted IconData | Sweep "int list" | DeferredDelete

fun handle_event :: "event \<Rightarrow> SystrayWidget \<Rightarrow> SystrayWidget" where
  "handle_event (Modified dat) s = on_icon_modified s dat"
| "handle_event (Deleted dat) s = on_icon_deleted s dat"
| "handle_event (Sweep valid) s = check_icons (\<lambda>h. h \<in> set valid) s"
| "handle_event DeferredDelete s = process_deferred_deletes s"

definition run_events :: "event list \<Rightarrow> SystrayWidget \<Rightarrow> SystrayWidget" where
  "run_events evs s = fold handle_event evs s"

text \<open>
  The widget as \<open>__init__\<close> leaves it: an empty registry, empty layouts, and the filter
  set built from the two show flags.
\<close>

definition init_widget :: "bool \<Rightarrow> bool \<Rightarrow> state_file \<Rightarrow> SystrayWidget" where
  "init_widget show_battery show_volume f =
     \<lparr>filtered_guids = (if \<not> show_battery then {BATTERY_ICON_GUID} else {}) \<union>
                        (if \<not> show_volume then {VOLUME_ICON_GUID} else {}),
      widgets = (\<lambda>_. \<lparr>data = None, widget_is_pinned = False, hidden = True\<rparr>),
      next_widget = 0,
      icons = [],
      current_state = [],
      unpinned_layout = [],
      pinned_layout = [],
      sort_timer_active = False,
      pinned_widget_visible = True,
      forceshow = False,
      deferred_delete = [],
      disk_file = f\<rparr>"

text \<open>
  The identity invariant of the registry: two entries share an identity when their
  GUIDs are equal and either the GUID is present or the window handle and id are equal
  as well.
\<close>

definition same_identity :: "IconData \<Rightarrow> IconData \<Rightarrow> bool" where
  "same_identity d e = (guid d = guid e \<and> (guid d \<noteq> None \<or> (hWnd d = hWnd e \<and> uID d = uID e)))"

fun unique_identities :: "IconData list \<Rightarrow> bool" where
  "unique_identities [] = True"
| "unique_identities (d # ds) = (list_all (\<lambda>e. \<not> same_identity d e) ds \<and> unique_identities ds)"

definition registry_data :: "SystrayWidget \<Rightarrow> IconData list" where
  "registry_data s = List.map_filter (\<lambda>icon. data (widgets s icon)) (icons s)"

definition registry_unique :: "SystrayWidget \<Rightarrow> bool" where
  "registry_unique s = unique_identities (registry_data s)"

section \<open>Notions used in the statements\<close>

text \<open>The entry that the snapshot writes for a widget, and the test for writing it under a key.\<close>

definition snapshot_entry :: "SystrayWidget \<Rightarrow> wref \<Rightarrow> IconState" where
  "snapshot_entry s w = \<lparr>is_pinned = widget_is_pinned (widgets s w), index = widget_index s w\<rparr>"

definition snapshots_under :: "SystrayWidget \<Rightarrow> string \<Rightarrow> wref \<Rightarrow> bool" where
  "snapshots_under s k w =
     (case data (widgets s w) of
        None \<Rightarrow> False
      | Some d \<Rightarrow> \<not> hidden (widgets s w) \<and> state_key d = k)"

text \<open>A widget that the snapshot records, and the key it is recorded under.\<close>

definition snapshotted :: "SystrayWidget \<Rightarrow> wref \<Rightarrow> bool" where
  "snapshotted s w = (data (widgets s w) \<noteq> None \<and> \<not> hidden (widgets s w))"

definition key_of :: "SystrayWidget \<Rightarrow> wref \<Rightarrow> string" where
  "key_of s w = (case data (widgets s w) of None \<Rightarrow> [] | Some d \<Rightarrow> state_key d)"

text \<open>A live, non-hidden widget with no GUID and executable path \<open>p\<close>.\<close>

definition shares_path :: "SystrayWidget \<Rightarrow> string \<Rightarrow> wref \<Rightarrow> bool" where
  "shares_path s p w =
     (case data (widgets s w) of
        None \<Rightarrow> False
      | Some d \<Rightarrow> \<not> hidden (widgets s w) \<and> guid d = None \<and> exe_path d = p)"

text \<open>A widget whose GUID prints as the string \<open>p\<close>.\<close>

definition guid_prints_as :: "SystrayWidget \<Rightarrow> string \<Rightarrow> wref \<Rightarrow> bool" where
  "guid_prints_as s p w =
     (case data (widgets s w) of
        None \<Rightarrow> False
      | Some d \<Rightarrow> (case guid d of None \<Rightarrow> False | Some g \<Rightarrow> str_UUID g = p))"

text \<open>A file entry that \<open>IconState.from_dict\<close> accepts.\<close>

definition decodable :: "json \<Rightarrow> bool" where
  "decodable v = (case IconState_from_dict v of Inl _ \<Rightarrow> False | Inr _ \<Rightarrow> True)"

text \<open>The in-memory map after the snapshot, which \<open>save_state\<close> takes before it writes.\<close>

definition snapshot :: "SystrayWidget \<Rightarrow> (string \<times> IconState) list" where
  "snapshot s = current_state (update_current_state s)"



text \<open>A modify notification that carries the GUID presence flag also carries a GUID.\<close>

definition flagged_guid_present :: "event \<Rightarrow> bool" where
  "flagged_guid_present e =
     (case e of
        Modified dat \<Rightarrow> (uFlags dat AND NIF_GUID \<noteq> 0 \<longrightarrow> guid dat \<noteq> None)
      | _ \<Rightarrow> True)"

text \<open>
  The invariant behind the identity invariant: widgets are registered once, were
  allocated before the next fresh number, have data, and differ pairwise in identity.
\<close>

definition registry_inv :: "SystrayWidget \<Rightarrow> bool" where
  "registry_inv s =
     (distinct (icons s) \<and>
      (\<forall>i\<in>set (icons s). i < next_widget s \<and> data (widgets s i) \<noteq> None) \<and>
      (\<forall>a\<in>set (icons s). \<forall>b\<in>set (icons s). a \<noteq> b \<longrightarrow>
         \<not> same_identity (the (data (widgets s a))) (the (data (widgets s b)))))"

text \<open>The two tests of \<open>find_icon\<close>, as predicates on a registry entry.\<close>

definition guid_matches :: "SystrayWidget \<Rightarrow> UUID \<Rightarrow> wref \<Rightarrow> bool" where
  "guid_matches s u icon =
     (case data (widgets s icon) of None \<Rightarrow> False | Some d \<Rightarrow> guid d = Some u)"

definition hwnd_uid_matches :: "SystrayWidget \<Rightarrow> int \<Rightarrow> int \<Rightarrow> wref \<Rightarrow> bool" where
  "hwnd_uid_matches s hwnd uid icon =
     (case data (widgets s icon) of None \<Rightarrow> False | Some d \<Rightarrow> hWnd d = hwnd \<and> uID d = uid)"

section \<open>Example states\<close>

text \<open>A notification with the given GUID, window handle, id, flags and executable path.\<close>

definition notification :: "UUID option \<Rightarrow> int \<Rightarrow> int \<Rightarrow> int \<Rightarrow> string \<Rightarrow> IconData" where
  "notification g h u fl p =
     IconData_empty\<lparr>guid := g, hWnd := h, uID := u, uFlags := fl, exe_path := p\<rparr>"

text \<open>One GUID-less icon with window handle 100 and id 1, registered by its first notification.\<close>

definition one_legacy_icon :: SystrayWidget where
  "one_legacy_icon =
     run_events [Modified (notification None 100 1 0 ''a.exe'')]
       (init_widget True True FileNotFound)"

text \<open>
  The specification's example: a notification that carries an icon handle, then one that
  carries only the hidden state.
\<close>

definition icon_then_state :: "IconData list" where
  "icon_then_state =
     [(notification None 100 1 NIF_ICON ''a.exe'')\<lparr>hIcon := 77\<rparr>,
      (notification None 100 1 NIF_STATE ''a.exe'')\<lparr>dwState := 1, dwStateMask := 1\<rparr>]"

text \<open>An empty host whose saved state pins the icon of \<open>a.exe\<close>.\<close>

definition saved_pinned_a :: SystrayWidget where
  "saved_pinned_a =
     (init_widget True True FileNotFound)
       \<lparr>current_state := [(''a.exe'', \<lparr>is_pinned = True, index = 0\<rparr>)]\<rparr>"

text \<open>The battery icon is filtered; one GUID-less icon is registered.\<close>

definition battery_filtered_legacy_icon :: SystrayWidget where
  "battery_filtered_legacy_icon =
     run_events [Modified (notification None 100 1 0 ''a.exe'')]
       (init_widget False True FileNotFound)"

text \<open>A notification that carries the battery GUID, with the window handle and id above.\<close>

definition battery_notification :: IconData where
  "battery_notification = notification (Some BATTERY_ICON_GUID) 100 1 NIF_GUID ''explorer.exe''"

text \<open>Two GUID-less icons of the same executable, both visible, in the unpinned layout.\<close>

definition two_a_exe :: SystrayWidget where
  "two_a_exe =
     run_events [Modified (notification None 100 1 0 ''a.exe''),
                 Modified (notification None 200 1 0 ''a.exe'')]
       (init_widget True True FileNotFound)"

text \<open>A state file with an entry for an icon that is not live, and a stale entry for a live one.\<close>

definition file_with_other_key :: state_file where
  "file_with_other_key =
     Decoded (JDict [(''b.exe'', IconState_dict \<lparr>is_pinned = True, index = 3\<rparr>),
                     (''a.exe'', IconState_dict \<lparr>is_pinned = True, index = 7\<rparr>)])"



text \<open>
  Saved indices for three executables. The icon of \<open>a.exe\<close> now carries GUID 7, for
  which nothing is saved.
\<close>

definition guid_icon_with_saved_path :: SystrayWidget where
  "guid_icon_with_saved_path =
     run_events [Modified (notification None 200 1 0 ''b.exe''),
                 Modified (notification (Some (UUID 7)) 100 1 NIF_GUID ''a.exe''),
                 Modified (notification None 300 1 0 ''c.exe'')]
       ((init_widget True True FileNotFound)
          \<lparr>current_state := [(''a.exe'', \<lparr>is_pinned = False, index = 0\<rparr>),
                             (''b.exe'', \<lparr>is_pinned = False, index = 1\<rparr>),
                             (''c.exe'', \<lparr>is_pinned = False, index = 0\<rparr>)]\<rparr>)"

text \<open>A hidden icon with saved index 5, followed by a visible icon with nothing saved.\<close>

definition hidden_then_visible :: SystrayWidget where
  "hidden_then_visible =
     run_events [Modified ((notification None 100 1 NIF_STATE ''a.exe'')\<lparr>dwState := 1\<rparr>),
                 Modified (notification None 200 1 0 ''b.exe'')]
       ((init_widget True True FileNotFound)
          \<lparr>current_state := [(''a.exe'', \<lparr>is_pinned = False, index = 5\<rparr>)]\<rparr>)"

text \<open>
  No hidden icon: two icons of \<open>a.exe\<close>, the second pinned by the user behind two other
  pinned icons, and an icon of \<open>x.exe\<close> that arrives last.
\<close>

definition shared_key_across_groups :: SystrayWidget where
  "shared_key_across_groups =
     (case pin_toggles [1, 2, 3]
             (run_events [Modified (notification None 100 1 0 ''a.exe''),
                          Modified (notification None 200 1 0 ''y.exe''),
                          Modified (notification None 300 1 0 ''z.exe''),
                          Modified (notification None 400 1 0 ''a.exe'')]
                (init_widget True True FileNotFound)) of
        Inl e \<Rightarrow> init_widget True True FileNotFound
      | Inr s \<Rightarrow> run_events [Modified (notification None 500 1 0 ''x.exe'')] s)"

text \<open>
  An icon with GUID 7 moves to the window handle and id of a GUID-less icon; a
  notification that carries the GUID flag and no GUID then clears its GUID.
\<close>

definition guid_cleared_by_flag :: "event list" where
  "guid_cleared_by_flag =
     [Modified (notification (Some (UUID 7)) 200 2 NIF_GUID ''b.exe''),
      Modified (notification None 100 1 0 ''a.exe''),
      Modified (notification (Some (UUID 7)) 100 1 NIF_GUID ''b.exe''),
      Modified (notification None 100 1 NIF_GUID ''b.exe'')]"

text \<open>
  The same move, followed by a sweep, a delete notification and the delivery of its
  delete request.
\<close>

definition guid_moves_window :: "event list" where
  "guid_moves_window =
     [Modified (notification (Some (UUID 7)) 200 2 NIF_GUID ''b.exe''),
      Modified (notification None 100 1 0 ''a.exe''),
      Modified (notification (Some (UUID 7)) 100 1 NIF_GUID ''b.exe''),
      Sweep [100],
      Deleted (notification None 100 1 0 ''a.exe''),
      DeferredDelete]"

section \<open>Verified properties\<close>

subsection \<open>Identity resolution\<close>

lemma find_by_guid_find:
  "find_by_guid (widgets s) u xs = find (guid_matches s u) xs"
  by (induction xs) (auto simp: guid_matches_def split: option.splits)

lemma find_by_hwnd_find:
  "find_by_hwnd (widgets s) hwnd uid xs = find (hwnd_uid_matches s hwnd uid) xs"
  by (induction xs) (auto simp: hwnd_uid_matches_def split: option.splits)

text \<open>
  C1, as the code has it: a given GUID resolves to the first live icon with that GUID,
  whatever its window handle and id. When no GUID is given, and also when a GUID is
  given that no live icon has, the lookup resolves to the first live icon whose window
  handle and id both match. When neither finds an icon the result is none.
\<close>

theorem find_icon_resolution:
  "find_icon s uuid hwnd uid =
     (case (case uuid of None \<Rightarrow> None | Some u \<Rightarrow> find (guid_matches s u) (icons s)) of
        Some icon \<Rightarrow> Some icon
      | None \<Rightarrow> find (hwnd_uid_matches s hwnd uid) (icons s))"
  by (simp add: find_icon_def find_by_guid_find find_by_hwnd_find split: option.splits)

text \<open>
  C1 as stated fails: a notification that carries GUID 7 resolves to the registered
  icon that has no GUID, through its window handle and id.
\<close>

theorem find_icon_guid_falls_back_to_hwnd:
  "find_icon one_legacy_icon (Some (UUID 7)) 100 1 = Some 0 \<and>
   map_option guid (data (widgets one_legacy_icon 0)) = Some None"
  by code_simp

subsection \<open>Modify notifications applied to one icon\<close>

lemma last_carried_snoc:
  "last_carried P f (ns @ [n]) prior = (if P n then f n else last_carried P f ns prior)"
  by (simp add: last_carried_def)

lemma last_carried_always:
  "ns \<noteq> [] \<Longrightarrow> last_carried (\<lambda>_. True) f ns prior = f (last ns)"
  by (cases ns rule: rev_cases) (simp_all add: last_carried_def)

lemma fold_gated:
  assumes "\<And>d n. f (step n d) = (if P n then g n else f d)"
  shows "f (fold step ns d) = last_carried P g ns (f d)"
proof (induction ns rule: rev_induct)
  case Nil
  show ?case by (simp add: last_carried_def)
next
  case (snoc n ns)
  show ?case by (simp add: assms snoc last_carried_snoc)
qed

lemma fold_direct:
  assumes "\<And>d n. f (step n d) = g n" and "ns \<noteq> []"
  shows "f (fold step ns d) = g (last ns)"
  using assms(2) by (cases ns rule: rev_cases) (simp_all add: assms(1))

lemma update_icon_data_seq_Some:
  "update_icon_data_seq (Some d) ns =
     Some (fold (\<lambda>n d. the (update_icon_data (Some d) n)) ns d)"
  unfolding update_icon_data_seq_def
  by (induction ns arbitrary: d) (simp_all add: update_icon_data_def Let_def)

lemma update_icon_data_seq_None: "update_icon_data_seq None ns = None"
  unfolding update_icon_data_seq_def
  by (induction ns) (simp_all add: update_icon_data_def)

text \<open>
  C3: after a non-empty run of modify notifications on one icon's data, each direct
  field holds the value of the last notification; each flagged field holds the value of
  the last notification whose presence flag was set, and its prior value when there was
  none; the version holds the last version within 1..4, and its prior value otherwise.
\<close>

theorem update_icon_data_seq_fields:
  assumes "ns \<noteq> []"
  shows "\<exists>d'. update_icon_data_seq (Some d) ns = Some d' \<and>
           message_type d' = message_type (last ns) \<and>
           hWnd d' = hWnd (last ns) \<and>
           uID d' = uID (last ns) \<and>
           uFlags d' = uFlags (last ns) \<and>
           icon_image d' = icon_image (last ns) \<and>
           exe d' = exe (last ns) \<and>
           exe_path d' = exe_path (last ns) \<and>
           uVersion d' =
             last_carried (\<lambda>n. 0 < uVersion n \<and> uVersion n \<le> 4) uVersion ns (uVersion d) \<and>
           uCallbackMessage d' =
             last_carried (\<lambda>n. uFlags n AND NIF_MESSAGE \<noteq> 0) uCallbackMessage ns
               (uCallbackMessage d) \<and>
           hIcon d' = last_carried (\<lambda>n. uFlags n AND NIF_ICON \<noteq> 0) hIcon ns (hIcon d) \<and>
           szTip d' = last_carried (\<lambda>n. uFlags n AND NIF_TIP \<noteq> 0) szTip ns (szTip d) \<and>
           dwState d' = last_carried (\<lambda>n. uFlags n AND NIF_STATE \<noteq> 0) dwState ns (dwState d) \<and>
           dwStateMask d' =
             last_carried (\<lambda>n. uFlags n AND NIF_STATE \<noteq> 0) dwStateMask ns (dwStateMask d) \<and>
           guid d' = last_carried (\<lambda>n. uFlags n AND NIF_GUID \<noteq> 0) guid ns (guid d) \<and>
           dwInfoFlags d' =
             last_carried (\<lambda>n. uFlags n AND NIF_INFO \<noteq> 0) dwInfoFlags ns (dwInfoFlags d) \<and>
           szInfoTitle d' =
             last_carried (\<lambda>n. uFlags n AND NIF_INFO \<noteq> 0) szInfoTitle ns (szInfoTitle d) \<and>
           szInfo d' = last_carried (\<lambda>n. uFlags n AND NIF_INFO \<noteq> 0) szInfo ns (szInfo d) \<and>
           uTimeout d' = last_carried (\<lambda>n. uFlags n AND NIF_INFO \<noteq> 0) uTimeout ns (uTimeout d)"
proof -
  let ?step = "\<lambda>n d. the (update_icon_data (Some d) n)"
  let ?d' = "fold ?step ns d"
  have seq: "update_icon_data_seq (Some d) ns = Some ?d'"
    by (rule update_icon_data_seq_Some)
  have f1: "message_type ?d' = message_type (last ns)"
    by (rule fold_direct [OF _ assms]) (simp add: update_icon_data_def Let_def)
  have f2: "hWnd ?d' = hWnd (last ns)"
    by (rule fold_direct [OF _ assms]) (simp add: update_icon_data_def Let_def)
  have f3: "uID ?d' = uID (last ns)"
    by (rule fold_direct [OF _ assms]) (simp add: update_icon_data_def Let_def)
  have f4: "uFlags ?d' = uFlags (last ns)"
    by (rule fold_direct [OF _ assms]) (simp add: update_icon_data_def Let_def)
  have f5: "icon_image ?d' = icon_image (last ns)"
    by (rule fold_direct [OF _ assms]) (simp add: update_icon_data_def Let_def)
  have f6: "exe ?d' = exe (last ns)"
    by (rule fold_direct [OF _ assms]) (simp add: update_icon_data_def Let_def)
  have f7: "exe_path ?d' = exe_path (last ns)"
    by (rule fold_direct [OF _ assms]) (simp add: update_icon_data_def Let_def)
  have g1: "uVersion ?d' =
      last_carried (\<lambda>n. 0 < uVersion n \<and> uVersion n \<le> 4) uVersion ns (uVersion d)"
    by (rule fold_gated) (simp add: update_icon_data_def Let_def)
  have g2: "uCallbackMessage ?d' =
      last_carried (\<lambda>n. uFlags n AND NIF_MESSAGE \<noteq> 0) uCallbackMessage ns (uCallbackMessage d)"
    by (rule fold_gated) (simp add: update_icon_data_def Let_def)
  have g3: "hIcon ?d' = last_carried (\<lambda>n. uFlags n AND NIF_ICON \<noteq> 0) hIcon ns (hIcon d)"
    by (rule fold_gated) (simp add: update_icon_data_def Let_def)
  have g4: "szTip ?d' = last_carried (\<lambda>n. uFlags n AND NIF_TIP \<noteq> 0) szTip ns (szTip d)"
    by (rule fold_gated) (simp add: update_icon_data_def Let_def)
  have g5: "dwState ?d' = last_carried (\<lambda>n. uFlags n AND NIF_STATE \<noteq> 0) dwState ns (dwState d)"
    by (rule fold_gated) (simp add: update_icon_data_def Let_def)
  have g6: "dwStateMask ?d' =
      last_carried (\<lambda>n. uFlags n AND NIF_STATE \<noteq> 0) dwStateMask ns (dwStateMask d)"
    by (rule fold_gated) (simp add: update_icon_data_def Let_def)
  have g7: "guid ?d' = last_carried (\<lambda>n. uFlags n AND NIF_GUID \<noteq> 0) guid ns (guid d)"
    by (rule fold_gated) (simp add: update_icon_data_def Let_def)
  have g8: "dwInfoFlags ?d' =
      last_carried (\<lambda>n. uFlags n AND NIF_INFO \<noteq> 0) dwInfoFlags ns (dwInfoFlags d)"
    by (rule fold_gated) (simp add: update_icon_data_def Let_def)
  have g9: "szInfoTitle ?d' =
      last_carried (\<lambda>n. uFlags n AND NIF_INFO \<noteq> 0) szInfoTitle ns (szInfoTitle d)"
    by (rule fold_gated) (simp add: update_icon_data_def Let_def)
  have g10: "szInfo ?d' = last_carried (\<lambda>n. uFlags n AND NIF_INFO \<noteq> 0) szInfo ns (szInfo d)"
    by (rule fold_gated) (simp add: update_icon_data_def Let_def)
  have g11: "uTimeout ?d' = last_carried (\<lambda>n. uFlags n AND NIF_INFO \<noteq> 0) uTimeout ns (uTimeout d)"
    by (rule fold_gated) (simp add: update_icon_data_def Let_def)
  from seq f1 f2 f3 f4 f5 f6 f7 g1 g2 g3 g4 g5 g6 g7 g8 g9 g10 g11
  show ?thesis by blast
qed

text \<open>
  The specification's example run: the second notification hides the icon and leaves the
  icon handle of the first in place.
\<close>

theorem update_icon_data_seq_fields_witness:
  "icon_then_state \<noteq> [] \<and>
   (\<exists>d'. update_icon_data_seq (Some IconData_empty) icon_then_state = Some d' \<and>
      hWnd d' = 100 \<and> uID d' = 1 \<and> uFlags d' = NIF_STATE \<and> hIcon d' = 77 \<and>
      dwState d' = 1 \<and> dwStateMask d' = 1 \<and> guid d' = None \<and> uVersion d' = 0)"
proof -
  have ne: "icon_then_state \<noteq> []" by (simp add: icon_then_state_def)
  from update_icon_data_seq_fields [OF ne, of IconData_empty]
  obtain d' where d': "update_icon_data_seq (Some IconData_empty) icon_then_state = Some d'"
    and "hWnd d' = hWnd (last icon_then_state)" "uID d' = uID (last icon_then_state)"
      "uFlags d' = uFlags (last icon_then_state)"
      "hIcon d' = last_carried (\<lambda>n. uFlags n AND NIF_ICON \<noteq> 0) hIcon icon_then_state (hIcon IconData_empty)"
      "dwState d' = last_carried (\<lambda>n. uFlags n AND NIF_STATE \<noteq> 0) dwState icon_then_state (dwState IconData_empty)"
      "dwStateMask d' = last_carried (\<lambda>n. uFlags n AND NIF_STATE \<noteq> 0) dwStateMask icon_then_state (dwStateMask IconData_empty)"
      "guid d' = last_carried (\<lambda>n. uFlags n AND NIF_GUID \<noteq> 0) guid icon_then_state (guid IconData_empty)"
      "uVersion d' = last_carried (\<lambda>n. 0 < uVersion n \<and> uVersion n \<le> 4) uVersion icon_then_state (uVersion IconData_empty)"
    by blast
  then show ?thesis using ne
    by (simp add: icon_then_state_def notification_def IconData_empty_def last_carried_def
        NIF_ICON_def NIF_STATE_def NIF_GUID_def)
qed

subsection \<open>Reconciler: placement of a new icon, and filtering\<close>

lemma on_icon_modified_new:
  assumes "\<not> is_filtered s dat" and "find_icon s (guid dat) (hWnd dat) (uID dat) = None"
  shows "on_icon_modified s dat =
     (let s1 = snd (new_icon s dat); icon = next_widget s; w = widgets s1 icon
      in update_pinned_widget_visibility False
           (s1\<lparr>widgets := (widgets s1)(icon :=
                 w\<lparr>data := update_icon_data (data w) dat,
                   hidden := (uFlags dat AND NIF_STATE \<noteq> 0 \<and> dwState dat = 1)\<rparr>)\<rparr>))"
  using assms by (simp add: on_icon_modified_def new_icon_def Let_def)

lemma upv_fields [simp]:
  "icons (update_pinned_widget_visibility f s) = icons s"
  "widgets (update_pinned_widget_visibility f s) = widgets s"
  "pinned_layout (update_pinned_widget_visibility f s) = pinned_layout s"
  "unpinned_layout (update_pinned_widget_visibility f s) = unpinned_layout s"
  "current_state (update_pinned_widget_visibility f s) = current_state s"
  "next_widget (update_pinned_widget_visibility f s) = next_widget s"
  "filtered_guids (update_pinned_widget_visibility f s) = filtered_guids s"
  "disk_file (update_pinned_widget_visibility f s) = disk_file s"
  by (simp_all add: update_pinned_widget_visibility_def Let_def)

text \<open>
  C7: a modify notification that is not filtered and resolves to no registry entry
  appends a new widget to the registry and puts it in the pinned layout when the saved
  entry for its identity is pinned, and in the unpinned layout otherwise. The saved entry
  is looked up under the GUID string (the path when there is no GUID), then under the
  path, and counts as unpinned when neither exists. The state \<open>s\<close> is arbitrary, so the
  placement does not depend on what arrived before.
\<close>

theorem new_icon_placement:
  assumes "\<not> is_filtered s dat"
    and "find_icon s (guid dat) (hWnd dat) (uID dat) = None"
  shows "let s' = on_icon_modified s dat;
             icon = next_widget s;
             cs = map_of (current_state s);
             pinned = (case cs (case guid dat of Some g \<Rightarrow> str_UUID g | None \<Rightarrow> exe_path dat) of
                         Some v \<Rightarrow> is_pinned v
                       | None \<Rightarrow> (case cs (exe_path dat) of Some v \<Rightarrow> is_pinned v | None \<Rightarrow> False))
         in icons s' = icons s @ [icon] \<and>
            widget_is_pinned (widgets s' icon) = pinned \<and>
            (icon \<in> set (pinned_layout s')) = pinned \<and>
            (icon \<in> set (unpinned_layout s')) = (\<not> pinned) \<and>
            pinned_layout s' = removeAll icon (pinned_layout s) @ (if pinned then [icon] else []) \<and>
            unpinned_layout s' = removeAll icon (unpinned_layout s) @ (if pinned then [] else [icon])"
  unfolding on_icon_modified_new [OF assms]
  by (simp add: Let_def new_icon_def saved_data_for_def pinned_addWidget_def
      unpinned_addWidget_def split: option.splits)

text \<open>The filter guard of \<open>on_icon_modified\<close>: a filtered modify notification changes nothing.\<close>

lemma filtered_modify_is_noop:
  assumes "is_filtered s dat"
  shows "on_icon_modified s dat = s"
  using assms by (simp add: on_icon_modified_def)

text \<open>
  C8: the claim asks that a delete notification whose GUID is in the filter set change
  nothing. \<open>on_icon_deleted\<close> lacks the guard that \<open>on_icon_modified\<close> has: with the
  battery icon filtered and one GUID-less icon registered on window handle 100 and id 1,
  a delete notification that carries the battery GUID and that handle and id resolves
  to the registered icon, takes it out of the registry and, once the delete request is
  delivered, out of its layout.
\<close>

theorem filtered_delete_removes_icon:
  "is_filtered battery_filtered_legacy_icon battery_notification \<and>
   icons battery_filtered_legacy_icon = [0] \<and>
   unpinned_layout battery_filtered_legacy_icon = [0] \<and>
   on_icon_modified battery_filtered_legacy_icon battery_notification =
     battery_filtered_legacy_icon \<and>
   icons (on_icon_deleted battery_filtered_legacy_icon battery_notification) = [] \<and>
   unpinned_layout (process_deferred_deletes
     (on_icon_deleted battery_filtered_legacy_icon battery_notification)) = []"
proof -
  have f: "is_filtered battery_filtered_legacy_icon battery_notification" by code_simp
  have r: "icons battery_filtered_legacy_icon = [0] \<and>
      unpinned_layout battery_filtered_legacy_icon = [0] \<and>
      icons (on_icon_deleted battery_filtered_legacy_icon battery_notification) = [] \<and>
      unpinned_layout (process_deferred_deletes
        (on_icon_deleted battery_filtered_legacy_icon battery_notification)) = []"
    by code_simp
  from f r filtered_modify_is_noop [OF f] show ?thesis by blast
qed

text \<open>The first notification of \<open>a.exe\<close>, pinned in the saved state, lands in the pinned layout.\<close>

theorem new_icon_placement_witness:
  "\<not> is_filtered saved_pinned_a (notification None 100 1 0 ''a.exe'') \<and>
   find_icon saved_pinned_a None 100 1 = None \<and>
   icons (on_icon_modified saved_pinned_a (notification None 100 1 0 ''a.exe'')) = [0] \<and>
   pinned_layout (on_icon_modified saved_pinned_a (notification None 100 1 0 ''a.exe'')) = [0] \<and>
   unpinned_layout (on_icon_modified saved_pinned_a (notification None 100 1 0 ''a.exe'')) = []"
proof -
  let ?n = "notification None 100 1 0 ''a.exe''"
  have f: "\<not> is_filtered saved_pinned_a ?n" by code_simp
  have n: "find_icon saved_pinned_a (guid ?n) (hWnd ?n) (uID ?n) = None" by code_simp
  have g: "guid ?n = None" "hWnd ?n = 100" "uID ?n = 1" "exe_path ?n = ''a.exe''"
    by (simp_all add: notification_def)
  have s: "icons saved_pinned_a = []" "pinned_layout saved_pinned_a = []"
    "unpinned_layout saved_pinned_a = []" "next_widget saved_pinned_a = 0"
    "current_state saved_pinned_a = [(''a.exe'', \<lparr>is_pinned = True, index = 0\<rparr>)]"
    by (simp_all add: saved_pinned_a_def init_widget_def)
  from new_icon_placement [OF f n] f n show ?thesis
    by (simp add: Let_def g s)
qed

subsection \<open>Dictionaries and the snapshot\<close>

lemma str_UUID_nonempty: "str_UUID g \<noteq> []"
  by (simp add: str_UUID_def Let_def)

lemma state_key_guid: "guid d = Some g \<Longrightarrow> state_key d = str_UUID g"
  by (simp add: state_key_def str_UUID_nonempty)

lemma state_key_no_guid: "guid d = None \<Longrightarrow> state_key d = exe_path d"
  by (simp add: state_key_def)

lemma map_of_fold_update:
  "map_of (fold (\<lambda>(k, v). AList.update k v) b a) = map_of a ++ map_of (rev b)"
proof (induction b arbitrary: a)
  case Nil
  show ?case by simp
next
  case (Cons x b)
  obtain k v where x: "x = (k, v)" by (cases x)
  have "map_of (fold (\<lambda>(k, v). AList.update k v) (x # b) a) =
        map_of (AList.update k v a) ++ map_of (rev b)"
    by (simp add: x Cons)
  also have "\<dots> = map_of a ++ map_of (rev (x # b))"
    by (simp add: x update_conv' map_add_upd_left)
  finally show ?case .
qed

lemma map_of_rev_distinct:
  "distinct (map fst xs) \<Longrightarrow> map_of (rev xs) = map_of xs"
  by (rule map_of_inject_set [THEN iffD2]) (simp_all add: rev_map [symmetric])

lemma map_of_dict_or:
  "distinct (map fst b) \<Longrightarrow> map_of (dict_or a b) = map_of a ++ map_of b"
  by (simp add: dict_or_def map_of_fold_update map_of_rev_distinct)

lemma distinct_fold_update:
  "distinct (map fst a) \<Longrightarrow> distinct (map fst (fold (\<lambda>(k, v). AList.update k v) b a))"
  by (induction b arbitrary: a) (auto simp: distinct_update)

lemma distinct_dict_or:
  "distinct (map fst a) \<Longrightarrow> distinct (map fst (dict_or a b))"
  by (simp add: dict_or_def distinct_fold_update)

lemma find_snoc:
  "find P (xs @ [x]) = (case find P xs of None \<Rightarrow> (if P x then Some x else None) | Some y \<Rightarrow> Some y)"
  by (induction xs) auto

lemma distinct_widgets_state_of:
  "distinct (map fst acc) \<Longrightarrow> distinct (map fst (widgets_state_of s ws acc))"
  by (induction ws arbitrary: acc) (auto simp: distinct_update split: option.splits)

lemma map_of_widgets_state_of:
  "map_of (widgets_state_of s ws acc) k =
     (case find (snapshots_under s k) (rev ws) of
        None \<Rightarrow> map_of acc k
      | Some w \<Rightarrow> Some (snapshot_entry s w))"
proof (induction ws arbitrary: acc)
  case Nil
  show ?case by simp
next
  case (Cons w ws)
  show ?case
    by (auto simp: Cons update_conv' snapshots_under_def snapshot_entry_def find_snoc
        split: option.splits)
qed

lemma map_of_snapshot:
  "map_of (snapshot s) k =
     (case find (snapshots_under s k) (rev (icons s)) of
        None \<Rightarrow> map_of (current_state s) k
      | Some w \<Rightarrow> Some (snapshot_entry s w))"
  by (simp add: snapshot_def update_current_state_def map_of_dict_or distinct_widgets_state_of
      map_of_widgets_state_of map_add_def split: option.splits)

lemma distinct_snapshot:
  "distinct (map fst (current_state s)) \<Longrightarrow> distinct (map fst (snapshot s))"
  by (simp add: snapshot_def update_current_state_def distinct_dict_or)

lemma from_dict_dict [simp]: "IconState_from_dict (IconState_dict v) = Inr v"
  by (simp add: IconState_dict_def)

lemma decodable_dict [simp]: "decodable (IconState_dict v)"
  by (simp add: decodable_def)

lemma find_rev_last:
  "filter P xs \<noteq> [] \<Longrightarrow> find P (rev xs) = Some (last (filter P xs))"
  by (induction xs rule: rev_induct) (auto)

subsection \<open>Persistence\<close>

lemma save_state_dict:
  assumes "disk_file s = Decoded (JDict d)"
  shows "save_state s =
     Inr ((update_current_state s)\<lparr>disk_file :=
        Decoded (JDict (dict_or d (map (\<lambda>(k, v). (k, IconState_dict v)) (snapshot s))))\<rparr>)"
  using assms by (simp add: save_state_def Let_def snapshot_def update_current_state_def)


lemma distinct_map_values:
  "distinct (map fst xs) \<Longrightarrow> distinct (map fst (map (\<lambda>(k, v). (k, f v)) xs))"
  by (simp add: case_prod_unfold comp_def)

lemma map_of_saved:
  assumes "distinct (map fst cs)"
  shows "map_of (dict_or d (map (\<lambda>(k, v). (k, IconState_dict v)) cs)) k =
     (case map_of cs k of Some v \<Rightarrow> Some (IconState_dict v) | None \<Rightarrow> map_of d k)"
proof -
  let ?b = "map (\<lambda>(k, v). (k, IconState_dict v)) cs"
  have "distinct (map fst ?b)" using assms by (rule distinct_map_values)
  then have "map_of (dict_or d ?b) k = (map_of d ++ map_of ?b) k"
    by (simp only: map_of_dict_or)
  also have "\<dots> = (case map_of cs k of Some v \<Rightarrow> Some (IconState_dict v) | None \<Rightarrow> map_of d k)"
    by (simp add: map_of_map map_add_def split: option.splits)
  finally show ?thesis .
qed

text \<open>
  C4: when the state file holds a JSON object, \<open>save_state\<close> succeeds and writes an
  object in which every key that the in-memory snapshot lacks keeps the value the file
  had, and every key of the snapshot holds the in-memory entry. The snapshot is the
  in-memory map as \<open>save_state\<close> writes it, after its \<open>update_current_state\<close>.
\<close>

theorem save_state_merges:
  assumes "disk_file s = Decoded (JDict d)"
    and "distinct (map fst (current_state s))"
  shows "\<exists>s' d'. save_state s = Inr s' \<and> disk_file s' = Decoded (JDict d') \<and>
           current_state s' = snapshot s \<and>
           (\<forall>k. map_of d' k =
              (case map_of (snapshot s) k of
                 Some v \<Rightarrow> Some (IconState_dict v)
               | None \<Rightarrow> map_of d k))"
proof -
  let ?d' = "dict_or d (map (\<lambda>(k, v). (k, IconState_dict v)) (snapshot s))"
  let ?s' = "(update_current_state s)\<lparr>disk_file := Decoded (JDict ?d')\<rparr>"
  have "save_state s = Inr ?s'" by (rule save_state_dict [OF assms(1)])
  moreover have "disk_file ?s' = Decoded (JDict ?d')" by simp
  moreover have "current_state ?s' = snapshot s" by (simp add: snapshot_def)
  moreover have "\<forall>k. map_of ?d' k =
      (case map_of (snapshot s) k of Some v \<Rightarrow> Some (IconState_dict v) | None \<Rightarrow> map_of d k)"
    using map_of_saved [OF distinct_snapshot [OF assms(2)]] by blast
  ultimately show ?thesis by blast
qed

text \<open>
  The entry of \<open>b.exe\<close>, which is not live, survives the save; the stale entry of
  \<open>a.exe\<close> is replaced by the in-memory one.
\<close>

theorem save_state_merges_witness:
  "disk_file (two_a_exe\<lparr>disk_file := file_with_other_key\<rparr>) = file_with_other_key \<and>
   distinct (map fst (current_state (two_a_exe\<lparr>disk_file := file_with_other_key\<rparr>))) \<and>
   (\<exists>s' d'. save_state (two_a_exe\<lparr>disk_file := file_with_other_key\<rparr>) = Inr s' \<and>
      disk_file s' = Decoded (JDict d') \<and>
      map_of d' ''b.exe'' = Some (IconState_dict \<lparr>is_pinned = True, index = 3\<rparr>) \<and>
      map_of d' ''a.exe'' = Some (IconState_dict \<lparr>is_pinned = False, index = 1\<rparr>))"
proof -
  let ?s = "two_a_exe\<lparr>disk_file := file_with_other_key\<rparr>"
  let ?d = "[(''b.exe'', IconState_dict \<lparr>is_pinned = True, index = 3\<rparr>),
             (''a.exe'', IconState_dict \<lparr>is_pinned = True, index = 7\<rparr>)]"
  have f: "disk_file ?s = Decoded (JDict ?d)" by (simp add: file_with_other_key_def)
  have c: "distinct (map fst (current_state ?s))" by code_simp
  have a: "map_of (snapshot ?s) ''a.exe'' = Some \<lparr>is_pinned = False, index = 1\<rparr>" by code_simp
  have b: "map_of (snapshot ?s) ''b.exe'' = None" by code_simp
  from save_state_merges [OF f c] obtain s' d' where
    "save_state ?s = Inr s'" "disk_file s' = Decoded (JDict d')"
    and m: "\<forall>k. map_of d' k =
              (case map_of (snapshot ?s) k of
                 Some v \<Rightarrow> Some (IconState_dict v)
               | None \<Rightarrow> map_of ?d k)"
    by blast
  moreover from m a have "map_of d' ''a.exe'' = Some (IconState_dict \<lparr>is_pinned = False, index = 1\<rparr>)"
    by simp
  moreover from m b have "map_of d' ''b.exe'' = Some (IconState_dict \<lparr>is_pinned = True, index = 3\<rparr>)"
    by simp
  ultimately show ?thesis using f c by (auto simp: file_with_other_key_def)
qed








lemma snapshots_under_shares_path:
  assumes "\<not> guid_prints_as s p w"
  shows "snapshots_under s p w = shares_path s p w"
proof (cases "data (widgets s w)")
  case None
  then show ?thesis by (simp add: snapshots_under_def shares_path_def)
next
  case (Some d)
  show ?thesis
  proof (cases "guid d")
    case None
    with Some show ?thesis
      by (simp add: snapshots_under_def shares_path_def state_key_no_guid)
  next
    case (Some g)
    with \<open>data (widgets s w) = Some d\<close> assms show ?thesis
      by (simp add: snapshots_under_def shares_path_def state_key_guid guid_prints_as_def)
  qed
qed

text \<open>
  C10: when live, non-hidden widgets without a GUID share the executable path \<open>p\<close>, the
  snapshot holds one entry under \<open>p\<close>: the pin flag and layout index of the one among
  them that comes last in the registry. No executable path has the form of a GUID
  string; the second premise says so for \<open>p\<close>.
\<close>

theorem snapshot_shared_path_key:
  assumes "filter (shares_path s p) (icons s) \<noteq> []"
    and "\<forall>w\<in>set (icons s). \<not> guid_prints_as s p w"
  shows "map_of (snapshot s) p =
           Some (snapshot_entry s (last (filter (shares_path s p) (icons s))))"
proof -
  have "filter (snapshots_under s p) (icons s) = filter (shares_path s p) (icons s)"
    using assms(2) by (intro filter_cong refl) (simp add: snapshots_under_shares_path)
  with assms(1) have "find (snapshots_under s p) (rev (icons s)) =
      Some (last (filter (shares_path s p) (icons s)))"
    using find_rev_last [of "snapshots_under s p" "icons s"] by simp
  then show ?thesis by (simp add: map_of_snapshot)
qed

text \<open>
  Two icons of \<open>a.exe\<close> at layout indices 0 and 1: the snapshot keeps index 1 only, so
  the placement of the first cannot be read back.
\<close>

theorem snapshot_shared_path_key_witness:
  "filter (shares_path two_a_exe ''a.exe'') (icons two_a_exe) = [0, 1] \<and>
   list_all (\<lambda>w. \<not> guid_prints_as two_a_exe ''a.exe'' w) (icons two_a_exe) \<and>
   snapshot_entry two_a_exe 0 = \<lparr>is_pinned = False, index = 0\<rparr> \<and>
   snapshot_entry two_a_exe 1 = \<lparr>is_pinned = False, index = 1\<rparr> \<and>
   map_of (snapshot two_a_exe) ''a.exe'' = Some \<lparr>is_pinned = False, index = 1\<rparr>"
proof -
  have f: "filter (shares_path two_a_exe ''a.exe'') (icons two_a_exe) = [0, 1]" by code_simp
  have g: "list_all (\<lambda>w. \<not> guid_prints_as two_a_exe ''a.exe'' w) (icons two_a_exe)"
    by code_simp
  have e0: "snapshot_entry two_a_exe 0 = \<lparr>is_pinned = False, index = 0\<rparr>" by code_simp
  have e1: "snapshot_entry two_a_exe 1 = \<lparr>is_pinned = False, index = 1\<rparr>" by code_simp
  have ne: "filter (shares_path two_a_exe ''a.exe'') (icons two_a_exe) \<noteq> []"
    by (simp add: f)
  have ng: "\<forall>w\<in>set (icons two_a_exe). \<not> guid_prints_as two_a_exe ''a.exe'' w"
    using g by (simp add: list_all_iff)
  from snapshot_shared_path_key [OF ne ng] f g e0 e1 show ?thesis by simp
qed

subsection \<open>Sorter\<close>

lemma indexOf_absent: "w \<notin> set xs \<Longrightarrow> indexOf xs w = - 1"
  by (induction xs) (auto simp: Let_def)

lemma indexOf_nonneg: "w \<in> set xs \<Longrightarrow> 0 \<le> indexOf xs w"
  by (induction xs) (auto simp: Let_def)

lemma indexOf_nth: "distinct xs \<Longrightarrow> i < length xs \<Longrightarrow> indexOf xs (xs ! i) = int i"
proof (induction xs arbitrary: i)
  case Nil
  then show ?case by simp
next
  case (Cons x xs)
  show ?case
  proof (cases i)
    case 0
    then show ?thesis by simp
  next
    case (Suc j)
    with Cons.prems have j: "j < length xs" and d: "distinct xs" and "xs ! j \<noteq> x"
      by auto
    with Cons.IH [OF d j] Suc show ?thesis by (auto simp: Let_def)
  qed
qed

lemma sorted_map_indexOf: "distinct xs \<Longrightarrow> sorted (map (indexOf xs) xs)"
  by (simp add: sorted_iff_nth_mono indexOf_nth)

lemma list_index_append: "y \<notin> set xs \<Longrightarrow> list_index (xs @ y # ys) y = length xs"
  by (induction xs) (auto simp: list_index_def)

lemma fold_insert_suffix:
  assumes "distinct (xs @ ys)" and "set r = set ys" and "distinct r"
  shows "fold (\<lambda>w l. layout_insert (list_index (xs @ ys) w) w (removeAll w l)) ys (xs @ r) = xs @ ys"
  using assms
proof (induction ys arbitrary: xs r)
  case Nil
  then show ?case by simp
next
  case (Cons y ys)
  let ?r' = "removeAll y r"
  from Cons.prems have y: "y \<notin> set xs" "y \<notin> set ys" by auto
  have idx: "list_index (xs @ y # ys) y = length xs" by (rule list_index_append [OF y(1)])
  have rm: "removeAll y (xs @ r) = xs @ ?r'" using y(1) by simp
  have step: "layout_insert (list_index (xs @ y # ys) y) y (removeAll y (xs @ r)) = (xs @ [y]) @ ?r'"
    unfolding idx rm layout_insert_def by simp
  have d: "distinct ((xs @ [y]) @ ys)" using Cons.prems(1) by auto
  have sr: "set ?r' = set ys" using Cons.prems(2) y(2) by auto
  have dr: "distinct ?r'" using Cons.prems(3) by (simp add: distinct_removeAll)
  have "fold (\<lambda>w l. layout_insert (list_index ((xs @ [y]) @ ys) w) w (removeAll w l)) ys
          ((xs @ [y]) @ ?r') = (xs @ [y]) @ ys"
    by (rule Cons.IH [OF d sr dr])
  then show ?case using step by simp
qed

lemma fold_insert_sorted:
  assumes "distinct l"
  shows "fold (\<lambda>w la. layout_insert (list_index (sort_key f l) w) w (removeAll w la))
           (sort_key f l) l = sort_key f l"
  using fold_insert_suffix [of "[]" "sort_key f l" l] assms by simp

lemma fold_removeAll_disjoint:
  "set ys \<inter> set l = {} \<Longrightarrow> fold removeAll ys l = l"
  by (induction ys) auto

lemma fold_unpinned_insertWidget:
  "fold (\<lambda>w. unpinned_insertWidget (f w) w) ys s =
     s\<lparr>unpinned_layout := fold (\<lambda>w l. layout_insert (f w) w (removeAll w l)) ys (unpinned_layout s),
       pinned_layout := fold removeAll ys (pinned_layout s)\<rparr>"
  by (induction ys arbitrary: s) (simp_all add: unpinned_insertWidget_def)

lemma fold_pinned_insertWidget:
  "fold (\<lambda>w. pinned_insertWidget (f w) w) ys s =
     s\<lparr>pinned_layout := fold (\<lambda>w l. layout_insert (f w) w (removeAll w l)) ys (pinned_layout s),
       unpinned_layout := fold removeAll ys (unpinned_layout s)\<rparr>"
  by (induction ys arbitrary: s) (simp_all add: pinned_insertWidget_def)

lemma sort_icons_layouts:
  assumes "distinct (unpinned_layout s @ pinned_layout s)"
  shows "sort_icons s =
     update_current_state
       (s\<lparr>pinned_layout := sort_key (get_sort_index s) (pinned_layout s),
          unpinned_layout := sort_key (get_sort_index s) (unpinned_layout s)\<rparr>)"
proof -
  let ?U = "sort_key (get_sort_index s) (unpinned_layout s)"
  let ?P = "sort_key (get_sort_index s) (pinned_layout s)"
  from assms have du: "distinct (unpinned_layout s)" and dp: "distinct (pinned_layout s)"
    and dj: "set (unpinned_layout s) \<inter> set (pinned_layout s) = {}" by auto
  have u1: "fold (\<lambda>w l. layout_insert (list_index ?U w) w (removeAll w l)) ?U (unpinned_layout s) = ?U"
    by (rule fold_insert_sorted [OF du])
  have p1: "fold (\<lambda>w l. layout_insert (list_index ?P w) w (removeAll w l)) ?P (pinned_layout s) = ?P"
    by (rule fold_insert_sorted [OF dp])
  have u2: "fold removeAll ?U (pinned_layout s) = pinned_layout s"
    by (rule fold_removeAll_disjoint) (use dj in simp)
  have p2: "fold removeAll ?P ?U = ?U"
    by (rule fold_removeAll_disjoint) (use dj in auto)
  show ?thesis
    by (simp add: sort_icons_def Let_def fold_unpinned_insertWidget fold_pinned_insertWidget
        u1 u2 p1 p2)
qed

lemma update_current_state_fields [simp]:
  "unpinned_layout (update_current_state s) = unpinned_layout s"
  "pinned_layout (update_current_state s) = pinned_layout s"
  "widgets (update_current_state s) = widgets s"
  "icons (update_current_state s) = icons s"
  by (simp_all add: update_current_state_def)

text \<open>
  C2, as the code has it: \<open>sort_icons\<close> stable-sorts the widget list of each group by
  \<open>get_sort_index\<close>: the result is ordered by the key, holds the same widgets, and keeps
  widgets with equal keys in their order. The key of a widget is the saved index under
  its GUID string when it has a GUID, and under its path when it has none; there is no
  second lookup. A widget without data, or without a saved entry under that one key, has
  key 9999, and so follows every widget whose key is smaller.
\<close>

theorem sort_icons_order:
  assumes "distinct (unpinned_layout s @ pinned_layout s)"
  shows "unpinned_layout (sort_icons s) = sort_key (get_sort_index s) (unpinned_layout s) \<and>
         pinned_layout (sort_icons s) = sort_key (get_sort_index s) (pinned_layout s) \<and>
         sorted (map (get_sort_index s) (unpinned_layout (sort_icons s))) \<and>
         sorted (map (get_sort_index s) (pinned_layout (sort_icons s))) \<and>
         set (unpinned_layout (sort_icons s)) = set (unpinned_layout s) \<and>
         set (pinned_layout (sort_icons s)) = set (pinned_layout s) \<and>
         distinct (unpinned_layout (sort_icons s) @ pinned_layout (sort_icons s)) \<and>
         (\<forall>k. filter (\<lambda>w. get_sort_index s w = k) (unpinned_layout (sort_icons s)) =
              filter (\<lambda>w. get_sort_index s w = k) (unpinned_layout s)) \<and>
         (\<forall>k. filter (\<lambda>w. get_sort_index s w = k) (pinned_layout (sort_icons s)) =
              filter (\<lambda>w. get_sort_index s w = k) (pinned_layout s)) \<and>
         (\<forall>w. get_sort_index s w =
              (case data (widgets s w) of
                 None \<Rightarrow> 9999
               | Some d \<Rightarrow>
                   (case map_of (current_state s)
                           (case guid d of Some g \<Rightarrow> str_UUID g | None \<Rightarrow> exe_path d) of
                      Some st \<Rightarrow> index st
                    | None \<Rightarrow> 9999)))"
proof -
  have u: "unpinned_layout (sort_icons s) = sort_key (get_sort_index s) (unpinned_layout s)"
    and p: "pinned_layout (sort_icons s) = sort_key (get_sort_index s) (pinned_layout s)"
    by (simp_all add: sort_icons_layouts [OF assms])
  have d: "distinct (unpinned_layout (sort_icons s) @ pinned_layout (sort_icons s))"
    using assms by (simp add: u p)
  have k: "\<forall>w. get_sort_index s w =
              (case data (widgets s w) of
                 None \<Rightarrow> 9999
               | Some d \<Rightarrow>
                   (case map_of (current_state s)
                           (case guid d of Some g \<Rightarrow> str_UUID g | None \<Rightarrow> exe_path d) of
                      Some st \<Rightarrow> index st
                    | None \<Rightarrow> 9999))"
    by (simp add: get_sort_index_def Let_def split: option.splits)
  have su: "sorted (map (get_sort_index s) (unpinned_layout (sort_icons s)))"
    and sp: "sorted (map (get_sort_index s) (pinned_layout (sort_icons s)))"
    by (simp_all only: u p sorted_sort_key)
  have eu: "set (unpinned_layout (sort_icons s)) = set (unpinned_layout s)"
    and ep: "set (pinned_layout (sort_icons s)) = set (pinned_layout s)"
    by (simp_all only: u p set_sort)
  have tu: "\<forall>k. filter (\<lambda>w. get_sort_index s w = k) (unpinned_layout (sort_icons s)) =
              filter (\<lambda>w. get_sort_index s w = k) (unpinned_layout s)"
    and tp: "\<forall>k. filter (\<lambda>w. get_sort_index s w = k) (pinned_layout (sort_icons s)) =
              filter (\<lambda>w. get_sort_index s w = k) (pinned_layout s)"
    by (simp_all add: u p sort_key_stable)
  from u p su sp eu ep d tu tp k show ?thesis by blast
qed

text \<open>
  C2 as stated fails: widget 1 carries GUID 7, under which nothing is saved, and its
  path has saved index 0. The code sorts it last with key 9999; the lookup of the
  specification would fall back to the path and sort it first.
\<close>

theorem sort_icons_no_path_fallback:
  "get_sort_index guid_icon_with_saved_path 1 = 9999 \<and>
   spec_sort_index guid_icon_with_saved_path 1 = 0 \<and>
   unpinned_layout guid_icon_with_saved_path = [0, 1, 2] \<and>
   unpinned_layout (sort_icons guid_icon_with_saved_path) = [2, 0, 1] \<and>
   sort_key (spec_sort_index guid_icon_with_saved_path)
     (unpinned_layout guid_icon_with_saved_path) = [1, 2, 0]"
  by code_simp

text \<open>
  Two icons in the unpinned layout: the sorted layout is ordered by the key.
\<close>

theorem sort_icons_order_witness:
  "distinct (unpinned_layout two_a_exe @ pinned_layout two_a_exe) \<and>
   unpinned_layout (sort_icons two_a_exe) = [0, 1] \<and>
   sorted (map (get_sort_index two_a_exe) [0, 1])"
proof -
  have d: "distinct (unpinned_layout two_a_exe @ pinned_layout two_a_exe)" by code_simp
  have e: "sort_key (get_sort_index two_a_exe) (unpinned_layout two_a_exe) = [0, 1]"
    by code_simp
  from sort_icons_order [OF d] have
    "unpinned_layout (sort_icons two_a_exe) =
       sort_key (get_sort_index two_a_exe) (unpinned_layout two_a_exe)"
    "sorted (map (get_sort_index two_a_exe) (unpinned_layout (sort_icons two_a_exe)))"
    by blast+
  with d e show ?thesis by simp
qed

lemma find_Some_mem: "find P ys = Some v \<Longrightarrow> v \<in> set ys \<and> P v"
  by (induction ys) (auto split: if_splits)

lemma find_unique:
  assumes "distinct (map f (filter P xs))" and "w \<in> set xs" and "P w"
  shows "find (\<lambda>v. P v \<and> f v = f w) (rev xs) = Some w"
proof (cases "find (\<lambda>v. P v \<and> f v = f w) (rev xs)")
  case None
  with assms(2,3) show ?thesis by (auto simp: find_None_iff)
next
  case (Some v)
  then have v: "v \<in> set xs" "P v" "f v = f w"
    by (auto dest: find_Some_mem)
  from assms(1) have "inj_on f (set (filter P xs))" by (simp add: distinct_map)
  with v assms(2,3) have "v = w" by (auto dest: inj_onD)
  with Some show ?thesis by simp
qed

lemma snapshots_under_key_of:
  "snapshots_under s k = (\<lambda>v. snapshotted s v \<and> key_of s v = k)"
  by (auto simp: snapshots_under_def snapshotted_def key_of_def fun_eq_iff split: option.splits)

lemma get_sort_index_state_key:
  assumes "data (widgets s w) = Some d"
  shows "get_sort_index s w =
     (case map_of (current_state s) (state_key d) of Some st \<Rightarrow> index st | None \<Rightarrow> 9999)"
  using assms
  by (cases "guid d") (simp_all add: get_sort_index_def state_key_guid state_key_no_guid)

lemma get_sort_index_after_snapshot:
  assumes "distinct (map (key_of s) (filter (snapshotted s) (icons s)))"
    and "w \<in> set (icons s)" and "snapshotted s w"
  shows "get_sort_index (update_current_state s) w = widget_index s w"
proof -
  from assms(3) obtain d where d: "data (widgets s w) = Some d"
    by (auto simp: snapshotted_def)
  then have k: "key_of s w = state_key d" by (simp add: key_of_def)
  have "find (snapshots_under s (key_of s w)) (rev (icons s)) = Some w"
    unfolding snapshots_under_key_of by (rule find_unique [OF assms])
  then have "map_of (snapshot s) (state_key d) = Some (snapshot_entry s w)"
    by (simp add: map_of_snapshot k)
  then have "map_of (current_state (update_current_state s)) (state_key d) =
      Some (snapshot_entry s w)"
    by (simp add: snapshot_def)
  moreover have "data (widgets (update_current_state s) w) = Some d" using d by simp
  ultimately show ?thesis
    by (simp add: get_sort_index_state_key snapshot_entry_def)
qed

lemma widget_index_unpinned:
  "w \<in> set (unpinned_layout s) \<Longrightarrow> widget_index s w = indexOf (unpinned_layout s) w"
  using indexOf_nonneg [of w "unpinned_layout s"] by (simp add: widget_index_def Let_def)

lemma widget_index_pinned:
  "w \<notin> set (unpinned_layout s) \<Longrightarrow> widget_index s w = indexOf (pinned_layout s) w"
  by (simp add: widget_index_def Let_def indexOf_absent)

lemma sorted_after_snapshot:
  assumes wf: "distinct (unpinned_layout s @ pinned_layout s)"
    and reg: "set (unpinned_layout s) \<union> set (pinned_layout s) \<subseteq> set (icons s)"
    and vis: "\<forall>w\<in>set (unpinned_layout s) \<union> set (pinned_layout s). snapshotted s w"
    and keys: "distinct (map (key_of s) (filter (snapshotted s) (icons s)))"
  shows "sorted (map (get_sort_index (update_current_state s)) (unpinned_layout s))"
    and "sorted (map (get_sort_index (update_current_state s)) (pinned_layout s))"
proof -
  have g: "\<And>w. w \<in> set (unpinned_layout s) \<union> set (pinned_layout s) \<Longrightarrow>
      get_sort_index (update_current_state s) w = widget_index s w"
    using reg vis by (intro get_sort_index_after_snapshot [OF keys]) auto
  have eu: "map (get_sort_index (update_current_state s)) (unpinned_layout s) =
        map (indexOf (unpinned_layout s)) (unpinned_layout s)"
    by (rule map_cong [OF refl]) (simp add: g widget_index_unpinned)
  from wf have du: "distinct (unpinned_layout s)" by simp
  show "sorted (map (get_sort_index (update_current_state s)) (unpinned_layout s))"
    unfolding eu by (rule sorted_map_indexOf [OF du])
  have ep: "map (get_sort_index (update_current_state s)) (pinned_layout s) =
        map (indexOf (pinned_layout s)) (pinned_layout s)"
  proof (rule map_cong [OF refl])
    fix w assume w: "w \<in> set (pinned_layout s)"
    with wf have "w \<notin> set (unpinned_layout s)" by auto
    with w show "get_sort_index (update_current_state s) w = indexOf (pinned_layout s) w"
      by (simp add: g widget_index_pinned)
  qed
  from wf have dp: "distinct (pinned_layout s)" by simp
  show "sorted (map (get_sort_index (update_current_state s)) (pinned_layout s))"
    unfolding ep by (rule sorted_map_indexOf [OF dp])
qed

text \<open>
  C6, as the code has it: when every laid-out widget is registered, has data and is not
  hidden, and no two snapshotted widgets of the registry share a state key, a second
  \<open>sort_icons\<close> leaves the order of both groups as the first one made it.
\<close>

theorem sort_icons_twice:
  assumes wf: "distinct (unpinned_layout s @ pinned_layout s)"
    and reg: "set (unpinned_layout s) \<union> set (pinned_layout s) \<subseteq> set (icons s)"
    and vis: "\<forall>w\<in>set (unpinned_layout s) \<union> set (pinned_layout s). snapshotted s w"
    and keys: "distinct (map (key_of s) (filter (snapshotted s) (icons s)))"
  shows "unpinned_layout (sort_icons (sort_icons s)) = unpinned_layout (sort_icons s) \<and>
         pinned_layout (sort_icons (sort_icons s)) = pinned_layout (sort_icons s)"
proof -
  let ?U = "sort_key (get_sort_index s) (unpinned_layout s)"
  let ?P = "sort_key (get_sort_index s) (pinned_layout s)"
  let ?s' = "s\<lparr>pinned_layout := ?P, unpinned_layout := ?U\<rparr>"
  have s1: "sort_icons s = update_current_state ?s'" by (rule sort_icons_layouts [OF wf])
  have wf': "distinct (unpinned_layout ?s' @ pinned_layout ?s')" using wf by simp
  have reg': "set (unpinned_layout ?s') \<union> set (pinned_layout ?s') \<subseteq> set (icons ?s')"
    using reg by simp
  have sn: "snapshotted ?s' = snapshotted s" by (simp add: snapshotted_def fun_eq_iff)
  have ko: "key_of ?s' = key_of s" by (simp add: key_of_def fun_eq_iff)
  have vis': "\<forall>w\<in>set (unpinned_layout ?s') \<union> set (pinned_layout ?s'). snapshotted ?s' w"
    using vis by (simp add: sn)
  have keys': "distinct (map (key_of ?s') (filter (snapshotted ?s') (icons ?s')))"
    using keys by (simp add: sn ko)
  have su: "sorted (map (get_sort_index (sort_icons s)) ?U)"
    using sorted_after_snapshot(1) [OF wf' reg' vis' keys'] by (simp add: s1)
  have sp: "sorted (map (get_sort_index (sort_icons s)) ?P)"
    using sorted_after_snapshot(2) [OF wf' reg' vis' keys'] by (simp add: s1)
  have l1: "unpinned_layout (sort_icons s) = ?U" "pinned_layout (sort_icons s) = ?P"
    by (simp_all add: s1)
  have wf1: "distinct (unpinned_layout (sort_icons s) @ pinned_layout (sort_icons s))"
    using wf by (simp add: l1)
  have "sort_icons (sort_icons s) =
      update_current_state
        ((sort_icons s)\<lparr>pinned_layout := sort_key (get_sort_index (sort_icons s)) ?P,
                        unpinned_layout := sort_key (get_sort_index (sort_icons s)) ?U\<rparr>)"
    using sort_icons_layouts [OF wf1] by (simp add: l1)
  then show ?thesis
    by (simp add: l1 sort_key_id_if_sorted [OF su] sort_key_id_if_sorted [OF sp])
qed

subsection \<open>Registry identities\<close>

lemma same_identity_sym: "same_identity d e = same_identity e d"
  by (auto simp: same_identity_def)

lemma unique_identities_pairwise:
  "distinct xs \<Longrightarrow>
     unique_identities (map f xs) =
       (\<forall>a\<in>set xs. \<forall>b\<in>set xs. a \<noteq> b \<longrightarrow> \<not> same_identity (f a) (f b))"
proof (induction xs)
  case Nil
  show ?case by simp
next
  case (Cons x xs)
  have s: "\<And>d e. same_identity d e \<Longrightarrow> same_identity e d"
    by (simp add: same_identity_sym)
  from Cons.prems have "x \<notin> set xs" "distinct xs" by simp_all
  then have "unique_identities (map f (x # xs)) =
      ((\<forall>e\<in>set xs. \<not> same_identity (f x) (f e)) \<and>
       (\<forall>a\<in>set xs. \<forall>b\<in>set xs. a \<noteq> b \<longrightarrow> \<not> same_identity (f a) (f b)))"
    using Cons.IH by (simp add: list_all_iff)
  also have "\<dots> =
      (\<forall>a\<in>set (x # xs). \<forall>b\<in>set (x # xs). a \<noteq> b \<longrightarrow> \<not> same_identity (f a) (f b))"
  proof (rule iffI)
    assume l: "(\<forall>e\<in>set xs. \<not> same_identity (f x) (f e)) \<and>
       (\<forall>a\<in>set xs. \<forall>b\<in>set xs. a \<noteq> b \<longrightarrow> \<not> same_identity (f a) (f b))"
    show "\<forall>a\<in>set (x # xs). \<forall>b\<in>set (x # xs). a \<noteq> b \<longrightarrow> \<not> same_identity (f a) (f b)"
    proof (intro ballI impI)
      fix a b assume ab: "a \<in> set (x # xs)" "b \<in> set (x # xs)" "a \<noteq> b"
      show "\<not> same_identity (f a) (f b)"
      proof (cases "a = x")
        case True
        with ab have "b \<in> set xs" by auto
        with l True show ?thesis by blast
      next
        case False
        with ab have a: "a \<in> set xs" by auto
        show ?thesis
        proof (cases "b = x")
          case True
          with l a have "\<not> same_identity (f x) (f a)" by blast
          with True show ?thesis using s by blast
        next
          case False
          with ab have "b \<in> set xs" by auto
          with l a ab(3) show ?thesis by blast
        qed
      qed
    qed
  next
    assume r: "\<forall>a\<in>set (x # xs). \<forall>b\<in>set (x # xs). a \<noteq> b \<longrightarrow> \<not> same_identity (f a) (f b)"
    have "\<forall>e\<in>set xs. \<not> same_identity (f x) (f e)"
    proof
      fix e assume "e \<in> set xs"
      with \<open>x \<notin> set xs\<close> have "x \<noteq> e" "e \<in> set (x # xs)" "x \<in> set (x # xs)" by auto
      with r show "\<not> same_identity (f x) (f e)" by blast
    qed
    moreover have "\<forall>a\<in>set xs. \<forall>b\<in>set xs. a \<noteq> b \<longrightarrow> \<not> same_identity (f a) (f b)"
      using r by simp
    ultimately show "(\<forall>e\<in>set xs. \<not> same_identity (f x) (f e)) \<and>
       (\<forall>a\<in>set xs. \<forall>b\<in>set xs. a \<noteq> b \<longrightarrow> \<not> same_identity (f a) (f b))" by blast
  qed
  finally show ?case .
qed

lemma map_filter_all_Some:
  "\<forall>x\<in>set xs. f x \<noteq> None \<Longrightarrow> List.map_filter f xs = map (\<lambda>x. the (f x)) xs"
  by (induction xs) auto

lemma registry_inv_unique: "registry_inv s \<Longrightarrow> registry_unique s"
proof -
  assume i: "registry_inv s"
  then have "registry_data s = map (\<lambda>a. the (data (widgets s a))) (icons s)"
    unfolding registry_data_def registry_inv_def by (intro map_filter_all_Some) simp
  with i show ?thesis
    by (simp add: registry_unique_def registry_inv_def unique_identities_pairwise)
qed

lemma registry_inv_empty: "icons s = [] \<Longrightarrow> registry_inv s"
  by (simp add: registry_inv_def)

lemma registry_inv_subset:
  assumes "registry_inv s" and "distinct (icons s')" and "set (icons s') \<subseteq> set (icons s)"
    and "widgets s' = widgets s" and "next_widget s' = next_widget s"
  shows "registry_inv s'"
  using assms unfolding registry_inv_def by (simp add: subset_iff)

lemma remove_icon_fields [simp]:
  "icons (remove_icon i s) = remove1 i (icons s)"
  "widgets (remove_icon i s) = widgets s"
  "next_widget (remove_icon i s) = next_widget s"
  by (simp_all add: remove_icon_def)

lemma registry_inv_deleted:
  assumes "registry_inv s"
  shows "registry_inv (on_icon_deleted s dat)"
proof (cases "find_icon s (guid dat) (hWnd dat) (uID dat)")
  case None
  with assms show ?thesis by (simp add: on_icon_deleted_def)
next
  case (Some i)
  from assms have "distinct (icons s)" by (simp add: registry_inv_def)
  then show ?thesis
    by (intro registry_inv_subset [OF assms]) (auto simp: on_icon_deleted_def Some dest: notin_set_remove1)
qed

lemma check_icon_keeps:
  assumes "widgets (fst sc) = ws \<and> next_widget (fst sc) = n \<and> distinct (icons (fst sc)) \<and>
           set (icons (fst sc)) \<subseteq> A"
  shows "widgets (fst (check_icon f i sc)) = ws \<and> next_widget (fst (check_icon f i sc)) = n \<and>
         distinct (icons (fst (check_icon f i sc))) \<and> set (icons (fst (check_icon f i sc))) \<subseteq> A"
  using assms
  by (auto simp: check_icon_def split: option.splits dest: notin_set_remove1)

lemma fold_check_icon_keeps:
  assumes "widgets (fst sc) = ws \<and> next_widget (fst sc) = n \<and> distinct (icons (fst sc)) \<and>
           set (icons (fst sc)) \<subseteq> A"
  shows "widgets (fst (fold (check_icon f) xs sc)) = ws \<and>
         next_widget (fst (fold (check_icon f) xs sc)) = n \<and>
         distinct (icons (fst (fold (check_icon f) xs sc))) \<and>
         set (icons (fst (fold (check_icon f) xs sc))) \<subseteq> A"
  using assms
proof (induction xs arbitrary: sc)
  case Nil
  then show ?case by simp
next
  case (Cons x xs)
  show ?case
    unfolding fold_simps by (rule Cons.IH [OF check_icon_keeps [OF Cons.prems]])
qed

lemma registry_inv_check_icons:
  assumes "registry_inv s"
  shows "registry_inv (check_icons f s)"
proof -
  from assms have "distinct (icons s)" by (simp add: registry_inv_def)
  then have "widgets (fst (s, False)) = widgets s \<and> next_widget (fst (s, False)) = next_widget s \<and>
      distinct (icons (fst (s, False))) \<and> set (icons (fst (s, False))) \<subseteq> set (icons s)"
    by simp
  from fold_check_icon_keeps [OF this, of f "icons s"]
  show ?thesis
    by (intro registry_inv_subset [OF assms])
       (auto simp: check_icons_def Let_def split: prod.splits)
qed


lemma update_icon_data_identity:
  "\<exists>d'. update_icon_data (Some d) dat = Some d' \<and> hWnd d' = hWnd dat \<and> uID d' = uID dat \<and>
        guid d' = (if uFlags dat AND NIF_GUID \<noteq> 0 then guid dat else guid d)"
  by (simp add: update_icon_data_def Let_def)

lemma find_icon_Some:
  assumes "find_icon s g h u = Some i"
  shows "i \<in> set (icons s) \<and>
         ((\<exists>u'. g = Some u' \<and> guid_matches s u' i) \<or>
          (hwnd_uid_matches s h u i \<and>
           (\<forall>u'. g = Some u' \<longrightarrow> (\<forall>j\<in>set (icons s). \<not> guid_matches s u' j))))"
proof (cases g)
  case None
  with assms have "find (hwnd_uid_matches s h u) (icons s) = Some i"
    by (simp add: find_icon_def find_by_hwnd_find)
  with None show ?thesis by (auto dest: find_Some_mem)
next
  case (Some u')
  show ?thesis
  proof (cases "find (guid_matches s u') (icons s)")
    case None
    with assms Some have "find (hwnd_uid_matches s h u) (icons s) = Some i"
      by (simp add: find_icon_def find_by_hwnd_find find_by_guid_find)
    with None Some show ?thesis by (auto dest: find_Some_mem simp: find_None_iff)
  next
    case (Some j)
    with assms \<open>g = Some u'\<close> have "j = i"
      by (simp add: find_icon_def find_by_guid_find)
    with Some \<open>g = Some u'\<close> show ?thesis by (auto dest: find_Some_mem)
  qed
qed

lemma find_icon_None:
  assumes "find_icon s g h u = None"
  shows "(\<forall>j\<in>set (icons s). \<not> hwnd_uid_matches s h u j) \<and>
         (\<forall>u'. g = Some u' \<longrightarrow> (\<forall>j\<in>set (icons s). \<not> guid_matches s u' j))"
  using assms
  by (cases g)
     (auto simp: find_icon_def find_by_hwnd_find find_by_guid_find find_None_iff
           split: option.splits)

lemma on_icon_modified_found:
  assumes "\<not> is_filtered s dat" and "find_icon s (guid dat) (hWnd dat) (uID dat) = Some i"
  shows "icons (on_icon_modified s dat) = icons s \<and>
         next_widget (on_icon_modified s dat) = next_widget s \<and>
         (\<forall>a. a \<noteq> i \<longrightarrow> widgets (on_icon_modified s dat) a = widgets s a) \<and>
         data (widgets (on_icon_modified s dat) i) = update_icon_data (data (widgets s i)) dat"
  using assms by (simp add: on_icon_modified_def Let_def)

lemma on_icon_modified_fresh:
  assumes "\<not> is_filtered s dat" and "find_icon s (guid dat) (hWnd dat) (uID dat) = None"
  shows "icons (on_icon_modified s dat) = icons s @ [next_widget s] \<and>
         next_widget (on_icon_modified s dat) = Suc (next_widget s) \<and>
         (\<forall>a. a \<noteq> next_widget s \<longrightarrow> widgets (on_icon_modified s dat) a = widgets s a) \<and>
         data (widgets (on_icon_modified s dat) (next_widget s)) =
           update_icon_data (Some IconData_empty) dat"
  unfolding on_icon_modified_new [OF assms]
  by (simp add: Let_def new_icon_def pinned_addWidget_def unpinned_addWidget_def)

lemma registry_inv_modified:
  assumes inv: "registry_inv s"
    and fl: "uFlags dat AND NIF_GUID \<noteq> 0 \<longrightarrow> guid dat \<noteq> None"
  shows "registry_inv (on_icon_modified s dat)"
proof (cases "is_filtered s dat")
  case True
  with inv show ?thesis by (simp add: on_icon_modified_def)
next
  case nf: False
  let ?s' = "on_icon_modified s dat"
  let ?D = "\<lambda>a. the (data (widgets s a))"
  from inv have dist: "distinct (icons s)"
    and lt: "\<And>a. a \<in> set (icons s) \<Longrightarrow> a < next_widget s"
    and dat: "\<And>a. a \<in> set (icons s) \<Longrightarrow> data (widgets s a) \<noteq> None"
    and uniq: "\<And>a b. a \<in> set (icons s) \<Longrightarrow> b \<in> set (icons s) \<Longrightarrow> a \<noteq> b \<Longrightarrow>
        \<not> same_identity (?D a) (?D b)"
    by (auto simp: registry_inv_def)
  show ?thesis
  proof (cases "find_icon s (guid dat) (hWnd dat) (uID dat)")
    case (Some i)
    from find_icon_Some [OF Some] have i: "i \<in> set (icons s)"
      and how: "(\<exists>u'. guid dat = Some u' \<and> guid_matches s u' i) \<or>
          (hwnd_uid_matches s (hWnd dat) (uID dat) i \<and>
           (\<forall>u'. guid dat = Some u' \<longrightarrow> (\<forall>j\<in>set (icons s). \<not> guid_matches s u' j)))"
      by blast+
    from dat [OF i] obtain d where d: "data (widgets s i) = Some d" by auto
    from update_icon_data_identity [of d dat] obtain d' where
      d': "update_icon_data (Some d) dat = Some d'" "hWnd d' = hWnd dat" "uID d' = uID dat"
        "guid d' = (if uFlags dat AND NIF_GUID \<noteq> 0 then guid dat else guid d)"
      by blast
    from on_icon_modified_found [OF nf Some] have
      ic: "icons ?s' = icons s" and nx: "next_widget ?s' = next_widget s"
      and oth: "\<And>a. a \<noteq> i \<Longrightarrow> widgets ?s' a = widgets s a"
      and new: "data (widgets ?s' i) = Some d'"
      by (simp_all add: d d')
    have key: "\<not> same_identity d' (?D b)" if b: "b \<in> set (icons s)" "b \<noteq> i" for b
    proof
      assume same: "same_identity d' (?D b)"
      from dat [OF b(1)] obtain e where e: "data (widgets s b) = Some e" by auto
      from uniq [OF i b(1)] b(2) have ne: "\<not> same_identity d e" by (auto simp: d e)
      from how show False
      proof
        assume "\<exists>u'. guid dat = Some u' \<and> guid_matches s u' i"
        then obtain u' where u': "guid dat = Some u'" "guid d = Some u'"
          by (auto simp: guid_matches_def d)
        then have "guid d' = Some u'" by (simp add: d')
        with same e have "guid e = Some u'" by (simp add: same_identity_def)
        with u' ne show False by (simp add: same_identity_def)
      next
        assume h: "hwnd_uid_matches s (hWnd dat) (uID dat) i \<and>
           (\<forall>u'. guid dat = Some u' \<longrightarrow> (\<forall>j\<in>set (icons s). \<not> guid_matches s u' j))"
        then have pair: "hWnd d = hWnd dat" "uID d = uID dat"
          by (simp_all add: hwnd_uid_matches_def d)
        show False
        proof (cases "uFlags dat AND NIF_GUID \<noteq> 0")
          case True
          with fl obtain u' where u': "guid dat = Some u'" by auto
          with True have "guid d' = Some u'" by (simp add: d')
          with same e have "guid_matches s u' b" by (simp add: same_identity_def guid_matches_def)
          with h u' b(1) show False by blast
        next
          case False
          then have "guid d' = guid d" by (simp add: d')
          with same pair d'(2,3) e have "same_identity d e" by (auto simp: same_identity_def)
          with ne show False ..
        qed
      qed
    qed
    have D': "the (data (widgets ?s' a)) = (if a = i then d' else ?D a)" for a
      by (simp add: new oth)
    have "\<forall>a\<in>set (icons ?s'). \<forall>b\<in>set (icons ?s'). a \<noteq> b \<longrightarrow>
        \<not> same_identity (the (data (widgets ?s' a))) (the (data (widgets ?s' b)))"
    proof (intro ballI impI)
      fix a b assume ab: "a \<in> set (icons ?s')" "b \<in> set (icons ?s')" "a \<noteq> b"
      then have ab': "a \<in> set (icons s)" "b \<in> set (icons s)" by (simp_all add: ic)
      show "\<not> same_identity (the (data (widgets ?s' a))) (the (data (widgets ?s' b)))"
      proof (cases "a = i")
        case True
        with ab(3) key [OF ab'(2)] show ?thesis by (simp add: D')
      next
        case a: False
        show ?thesis
        proof (cases "b = i")
          case True
          with a key [OF ab'(1)] show ?thesis by (simp add: D' same_identity_sym [of "?D a"])
        next
          case False
          with a uniq [OF ab' ab(3)] show ?thesis by (simp add: D')
        qed
      qed
    qed
    moreover have "data (widgets ?s' a) \<noteq> None" if "a \<in> set (icons s)" for a
      using dat [OF that] by (cases "a = i") (simp_all add: new oth)
    then have "\<forall>a\<in>set (icons ?s'). a < next_widget ?s' \<and> data (widgets ?s' a) \<noteq> None"
      using lt by (simp add: ic nx)
    ultimately show ?thesis using dist by (simp add: registry_inv_def ic)
  next
    case None
    let ?n = "next_widget s"
    from find_icon_None [OF None] have
      nomatch: "\<And>j. j \<in> set (icons s) \<Longrightarrow> \<not> hwnd_uid_matches s (hWnd dat) (uID dat) j"
      and noguid: "\<And>u' j. guid dat = Some u' \<Longrightarrow> j \<in> set (icons s) \<Longrightarrow> \<not> guid_matches s u' j"
      by blast+
    from update_icon_data_identity [of IconData_empty dat] obtain d' where
      d': "update_icon_data (Some IconData_empty) dat = Some d'" "hWnd d' = hWnd dat"
        "uID d' = uID dat"
        "guid d' = (if uFlags dat AND NIF_GUID \<noteq> 0 then guid dat else guid IconData_empty)"
      by blast
    from on_icon_modified_fresh [OF nf None] have
      ic: "icons ?s' = icons s @ [?n]" and nx: "next_widget ?s' = Suc ?n"
      and oth: "\<And>a. a \<noteq> ?n \<Longrightarrow> widgets ?s' a = widgets s a"
      and new: "data (widgets ?s' ?n) = Some d'"
      by (simp_all add: d')
    have fresh: "?n \<notin> set (icons s)" using lt by auto
    have key: "\<not> same_identity d' (?D b)" if b: "b \<in> set (icons s)" for b
    proof
      assume same: "same_identity d' (?D b)"
      from dat [OF b] obtain e where e: "data (widgets s b) = Some e" by auto
      from nomatch [OF b] have "\<not> (hWnd e = hWnd dat \<and> uID e = uID dat)"
        by (simp add: hwnd_uid_matches_def e)
      moreover from same e have sg: "guid d' = guid e"
        and "guid d' \<noteq> None \<or> (hWnd d' = hWnd e \<and> uID d' = uID e)"
        by (auto simp: same_identity_def)
      ultimately have "guid d' \<noteq> None" using d'(2,3) by metis
      note g = this sg
      then obtain u' where u': "guid dat = Some u'" "guid d' = Some u'"
        by (auto simp: d' IconData_empty_def split: if_splits)
      with g e have "guid_matches s u' b" by (simp add: guid_matches_def)
      with noguid [OF u'(1) b] show False ..
    qed
    have D': "the (data (widgets ?s' a)) = (if a = ?n then d' else ?D a)" for a
      by (simp add: new oth)
    have "\<forall>a\<in>set (icons ?s'). \<forall>b\<in>set (icons ?s'). a \<noteq> b \<longrightarrow>
        \<not> same_identity (the (data (widgets ?s' a))) (the (data (widgets ?s' b)))"
    proof (intro ballI impI)
      fix a b assume ab: "a \<in> set (icons ?s')" "b \<in> set (icons ?s')" "a \<noteq> b"
      show "\<not> same_identity (the (data (widgets ?s' a))) (the (data (widgets ?s' b)))"
      proof (cases "a = ?n")
        case True
        with ab have "b \<in> set (icons s)" by (auto simp: ic)
        from key [OF this] True ab(3) show ?thesis by (simp add: D')
      next
        case a: False
        with ab have a': "a \<in> set (icons s)" by (auto simp: ic)
        show ?thesis
        proof (cases "b = ?n")
          case True
          with a key [OF a'] show ?thesis by (simp add: D' same_identity_sym [of "?D a"])
        next
          case False
          with ab have "b \<in> set (icons s)" by (auto simp: ic)
          from uniq [OF a' this ab(3)] a False show ?thesis by (simp add: D')
        qed
      qed
    qed
    moreover have "data (widgets ?s' a) \<noteq> None" if "a \<in> set (icons s)" for a
      using dat [OF that] by (cases "a = ?n") (simp_all add: new oth)
    then have "\<forall>a\<in>set (icons ?s'). a < next_widget ?s' \<and> data (widgets ?s' a) \<noteq> None"
      using lt by (auto simp: ic nx new less_Suc_eq)
    ultimately show ?thesis using dist fresh by (simp add: registry_inv_def ic)
  qed
qed

lemma registry_inv_deferred:
  assumes "registry_inv s"
  shows "registry_inv (process_deferred_deletes s)"
  using assms
  by (intro registry_inv_subset [OF assms])
     (simp_all add: process_deferred_deletes_def registry_inv_def)

lemma registry_inv_event:
  assumes "registry_inv s" and "flagged_guid_present e"
  shows "registry_inv (handle_event e s)"
  using assms
  by (cases e)
     (simp_all add: flagged_guid_present_def registry_inv_modified registry_inv_deleted
        registry_inv_check_icons registry_inv_deferred)

lemma registry_inv_run:
  assumes "registry_inv s" and "\<forall>e\<in>set evs. flagged_guid_present e"
  shows "registry_inv (run_events evs s)"
  using assms unfolding run_events_def
  by (induction evs arbitrary: s) (simp_all add: registry_inv_event)

text \<open>
  C9, as the code has it: from an empty registry, every run of modify notifications,
  delete notifications and liveness sweeps, with the posted delete requests delivered at
  any points of the run, in which each notification that carries the
  GUID presence flag also carries a GUID leaves a registry without two entries of the
  same identity: no two entries have the same GUID, and no two entries without a GUID
  have the same window handle and id.
\<close>

theorem registry_unique_reachable:
  assumes "icons s = []" and "\<forall>e\<in>set evs. flagged_guid_present e"
  shows "registry_unique (run_events evs s)"
  by (rule registry_inv_unique [OF registry_inv_run [OF registry_inv_empty [OF assms(1)] assms(2)]])

text \<open>
  C9 as stated fails: a modify notification that carries the GUID presence flag and no
  GUID overwrites the GUID of the entry it resolves to, and leaves two entries without
  a GUID on the same window handle and id.
\<close>

theorem registry_unique_lost_by_flag_without_guid:
  "\<not> registry_unique (run_events guid_cleared_by_flag (init_widget True True FileNotFound))"
  by code_simp

text \<open>
  A run in which an icon with a GUID takes over the window handle and id of another
  icon, then a sweep, a delete and the delivery of its request: the registry stays
  unique and non-empty.
\<close>

theorem registry_unique_reachable_witness:
  "icons (init_widget True True FileNotFound) = [] \<and>
   list_all flagged_guid_present guid_moves_window \<and>
   registry_unique (run_events guid_moves_window (init_widget True True FileNotFound)) \<and>
   registry_data (run_events guid_moves_window (init_widget True True FileNotFound)) \<noteq> []"
proof -
  have e: "icons (init_widget True True FileNotFound) = []" by (simp add: init_widget_def)
  have f: "list_all flagged_guid_present guid_moves_window" by code_simp
  then have f': "\<forall>e\<in>set guid_moves_window. flagged_guid_present e" by (simp add: list_all_iff)
  have n: "registry_data (run_events guid_moves_window (init_widget True True FileNotFound)) \<noteq> []"
    by code_simp
  from registry_unique_reachable [OF e f'] e f n show ?thesis by simp
qed

subsection \<open>Sorting twice\<close>

text \<open>
  C6 as stated fails. With a hidden widget: its saved index 5 stays, the visible widget
  behind it gets index 1 from the first sort, and the second sort swaps them. Without
  any hidden widget: two widgets share the key of \<open>a.exe\<close> across the groups, the entry
  holds the index of the pinned one, and the second sort moves the unpinned one.
\<close>

theorem sort_icons_twice_differs:
  "unpinned_layout (sort_icons hidden_then_visible) = [0, 1] \<and>
   unpinned_layout (sort_icons (sort_icons hidden_then_visible)) = [1, 0] \<and>
   list_all (\<lambda>w. \<not> hidden (widgets shared_key_across_groups w))
     (icons shared_key_across_groups) \<and>
   unpinned_layout (sort_icons shared_key_across_groups) = [0, 4] \<and>
   unpinned_layout (sort_icons (sort_icons shared_key_across_groups)) = [4, 0]"
  by code_simp

text \<open>Three visible icons with distinct keys: the second sort keeps the order of the first.\<close>

theorem sort_icons_twice_witness:
  "distinct (unpinned_layout guid_icon_with_saved_path @ pinned_layout guid_icon_with_saved_path) \<and>
   set (unpinned_layout guid_icon_with_saved_path) \<union> set (pinned_layout guid_icon_with_saved_path)
     \<subseteq> set (icons guid_icon_with_saved_path) \<and>
   list_all (snapshotted guid_icon_with_saved_path)
     (unpinned_layout guid_icon_with_saved_path @ pinned_layout guid_icon_with_saved_path) \<and>
   distinct (map (key_of guid_icon_with_saved_path)
      (filter (snapshotted guid_icon_with_saved_path) (icons guid_icon_with_saved_path))) \<and>
   unpinned_layout (sort_icons guid_icon_with_saved_path) = [2, 0, 1] \<and>
   unpinned_layout (sort_icons (sort_icons guid_icon_with_saved_path)) = [2, 0, 1]"
proof -
  let ?s = guid_icon_with_saved_path
  have wf: "distinct (unpinned_layout ?s @ pinned_layout ?s)" by code_simp
  have reg: "set (unpinned_layout ?s) \<union> set (pinned_layout ?s) \<subseteq> set (icons ?s)" by code_simp
  have vis: "list_all (snapshotted ?s) (unpinned_layout ?s @ pinned_layout ?s)" by code_simp
  then have vis': "\<forall>w\<in>set (unpinned_layout ?s) \<union> set (pinned_layout ?s). snapshotted ?s w"
    by (simp add: list_all_iff)
  have keys: "distinct (map (key_of ?s) (filter (snapshotted ?s) (icons ?s)))" by code_simp
  have one: "unpinned_layout (sort_icons ?s) = [2, 0, 1]" by code_simp
  from sort_icons_twice [OF wf reg vis' keys] wf reg vis keys one show ?thesis by simp
qed

end
